theory Spec2Isabelle
  imports Main "HOL-Library.Sublist"
begin

unbundle bit_operations_syntax

section \<open>The model\<close>

text \<open>
  A shallow embedding of \<^verbatim>\<open>webpage.c\<close> (the per-page assembler) and of
  \<^verbatim>\<open>webpages.sh\<close> (the build orchestrator). C strings are \<^typ>\<open>string\<close>;
  a \<^verbatim>\<open>char *\<close> that may be \<^verbatim>\<open>NULL\<close> is a \<^typ>\<open>string option\<close>.
  The output file is the string written so far: every writing function takes it and
  returns it extended. Verbose output goes to stderr only and is left out.
\<close>

subsection \<open>Ways in which the process stops\<close>

text \<open>
  \<open>Exit code msg\<close>: \<^verbatim>\<open>exit(code)\<close> after printing \<open>msg\<close> on stdout.
  \<open>AssertFail\<close>: a failed \<^verbatim>\<open>assert\<close> (abort).
  \<open>BufferOverflow\<close>: a \<^verbatim>\<open>strcat\<close> past the end of its destination array;
  the C standard leaves what follows undefined, so nothing is claimed after it.
  \<open>ArithTrap\<close>: a division by zero. \<open>Hang\<close>: a loop that never ends.
\<close>

datatype fatal = Exit int string | AssertFail | BufferOverflow | ArithTrap | Hang

definition EXIT_NORMAL :: int where "EXIT_NORMAL = 0"
definition EXIT_NO_MARKDOWN :: int where "EXIT_NO_MARKDOWN = - 1"
definition EXIT_MISSING_VALUE :: int where "EXIT_MISSING_VALUE = - 2"
definition EXIT_UNKNOWN_OPTION :: int where "EXIT_UNKNOWN_OPTION = - 3"
definition EXIT_NO_CSS_FILE :: int where "EXIT_NO_CSS_FILE = - 4"
definition EXIT_ABS_PATH_REQUIRED :: int where "EXIT_ABS_PATH_REQUIRED = - 5"
definition EXIT_INVOKED_OUTSIDE_HTML_ROOT :: int where "EXIT_INVOKED_OUTSIDE_HTML_ROOT = - 6"

definition SEARCH_DIR_SIZE :: nat where "SEARCH_DIR_SIZE = 256"

subsection \<open>Options and constant texts\<close>

record Options =
  includeTitle :: bool
  includeDTD :: bool
  includeAuthor :: bool
  includeDatetime :: bool
  cssRoot :: "string option"
  navEmbedCode :: "string option"
  txtFilename :: "string option"
  verbose :: bool

definition g_Options :: Options where
  "g_Options = \<lparr> includeTitle = True, includeDTD = True, includeAuthor = True,
     includeDatetime = True, cssRoot = None, navEmbedCode = None, txtFilename = None,
     verbose = False \<rparr>"

definition flag_dtd :: int where "flag_dtd = 0x01"
definition flag_title :: int where "flag_title = 0x02"
definition flag_datetime :: int where "flag_datetime = 0x04"
definition flag_author :: int where "flag_author = 0x08"

definition g_Doctype :: string where "g_Doctype = ''<!DOCTYPE html>\<newline>''"
definition g_PageOpenTag :: string where "g_PageOpenTag = ''<html>\<newline>''"
definition g_PageCloseTag :: string where "g_PageCloseTag = ''</html>\<newline>''"
definition g_HeadOpenTag :: string where "g_HeadOpenTag = ''<head>\<newline>''"
definition g_HeadCloseTag :: string where "g_HeadCloseTag = ''</head>\<newline>''"
definition g_TitleOpenTag :: string where "g_TitleOpenTag = ''<title>''"
definition g_TitleCloseTag :: string where "g_TitleCloseTag = ''</title>\<newline>''"
definition g_CommentOpenTag :: string where "g_CommentOpenTag = ''<!--''"
definition g_CommentCloseTag :: string where "g_CommentCloseTag = ''-->\<newline>''"
definition g_LinkOpenTag :: string where "g_LinkOpenTag = ''<link ''"
definition g_LinkCloseTag :: string where "g_LinkCloseTag = '' >\<newline>''"
definition g_BodyOpenTag :: string where "g_BodyOpenTag = ''<body>\<newline>''"
definition g_BodyCloseTag :: string where "g_BodyCloseTag = ''</body>\<newline>''"

subsection \<open>What the assembler reads from its surroundings\<close>

text \<open>
  \<open>cwd\<close> is the working directory as the list of its path components, root first
  (\<open>[]\<close> is \<^verbatim>\<open>/\<close>). \<open>dirs d\<close> is what \<^verbatim>\<open>readdir\<close> lists for the directory
  \<open>d\<close>, in the order it lists it, or \<open>None\<close> when \<open>d\<close> cannot be opened.
  \<open>files n\<close> is the content of the file that \<^verbatim>\<open>fopen(n, "r")\<close> opens, or \<open>None\<close>
  when it fails; \<open>st_blksize\<close> is the block size \<^verbatim>\<open>fstat\<close> reports.
  \<open>pw_name\<close> is the name of the effective user, or \<open>None\<close> when \<^verbatim>\<open>getpwuid\<close>
  finds none. \<open>time_c\<close> is the local time in the format \<^verbatim>\<open>%c\<close>. \<open>cmark\<close> is the
  markdown renderer (parse, then render as HTML, both in unsafe mode), \<open>None\<close> when
  either step returns \<^verbatim>\<open>NULL\<close>. Creating the output file, writing to it and
  \<^verbatim>\<open>malloc\<close> are taken to succeed.
\<close>

record env =
  cwd :: "string list"
  dirs :: "string list \<Rightarrow> string list option"
  files :: "string \<Rightarrow> string option"
  st_blksize :: nat
  pw_name :: "string option"
  time_c :: string
  cmark :: "string \<Rightarrow> string option"

subsection \<open>copyFile\<close>

text \<open>
  \<^verbatim>\<open>bytesRead\<close> and \<^verbatim>\<open>written\<close> are of type \<^verbatim>\<open>int\<close>, 32 bits wide: a value
  assigned to them is reduced to the range from \<open>- 2\<^sup>3\<^sup>1\<close> to \<open>2\<^sup>3\<^sup>1 - 1\<close>.
\<close>

definition int32 :: "int \<Rightarrow> int" where
  "int32 x = (x + 2 ^ 31) mod 2 ^ 32 - 2 ^ 31"

text \<open>
  The \<^verbatim>\<open>while\<close> loop of \<^verbatim>\<open>copyFile\<close>. \<open>inp\<close> is what is left to read of the
  input; one \<^verbatim>\<open>fread\<close> takes up to \<open>blksize\<close> bytes of it into the buffer, and
  \<^verbatim>\<open>fwrite\<close> of one block returns 1 (0 for a block of no bytes). The result is
  \<^verbatim>\<open>bytesRead\<close>, \<^verbatim>\<open>written\<close> and the output when the loop is left (the remainder
  \<^verbatim>\<open>bytesRead % st_blksize\<close> traps for a block size of 0). The loop has no exit when
  nothing more can be read and \<^verbatim>\<open>bytesRead\<close> stays below the size, so it is a partial
  function and \<open>None\<close> means it runs forever. (A block is written after a read that did
  not fill the buffer only in such a run.)
\<close>

partial_function (option) copyLoop ::
  "nat \<Rightarrow> nat \<Rightarrow> string \<Rightarrow> int \<Rightarrow> int \<Rightarrow> string
     \<Rightarrow> (fatal + int \<times> int \<times> string) option"
where
  "copyLoop blksize st_size inp bytesRead written outp =
     (let readBuffer = take blksize inp;
          bytesRead = int32 (bytesRead + int (length readBuffer))
      in if int st_size \<ge> bytesRead then
           if bytesRead < int st_size then
             copyLoop blksize st_size (drop blksize inp) bytesRead
               (int32 (written + (if blksize = 0 then 0 else 1))) (outp @ readBuffer)
           else if blksize = 0 then Some (Inl ArithTrap)
           else
             (let written = int32 (written * int blksize);
                  remainder = nat (bytesRead mod int blksize)
              in Some (Inr (bytesRead, int32 (written + int remainder),
                            outp @ take remainder readBuffer)))
         else Some (Inr (bytesRead, written, outp)))"

declare copyLoop.simps [code]

text \<open>
  \<^verbatim>\<open>copyFile\<close>: \<open>st_size\<close> is the length of the file, and the final
  \<^verbatim>\<open>assert(bytesRead == written)\<close> decides the outcome.
\<close>

definition copyFile :: "nat \<Rightarrow> string \<Rightarrow> string \<Rightarrow> fatal + string" where
  "copyFile blksize input outp =
     (case copyLoop blksize (length input) input 0 0 outp of
        None \<Rightarrow> Inl Hang
      | Some (Inl f) \<Rightarrow> Inl f
      | Some (Inr (bytesRead, written, outp')) \<Rightarrow>
          if bytesRead = written then Inr outp' else Inl AssertFail)"

definition checked_fwrite :: "string \<Rightarrow> string \<Rightarrow> string" where
  "checked_fwrite stringToWrite outp = outp @ stringToWrite"

definition getUserName :: "env \<Rightarrow> fatal + string" where
  "getUserName e = (case pw_name e of None \<Rightarrow> Inl AssertFail | Some n \<Rightarrow> Inr n)"

subsection \<open>findCssFile\<close>

text \<open>
  \<open>strstr hay needle\<close> holds when the C call returns a pointer, that is when
  \<open>needle\<close> occurs somewhere in \<open>hay\<close>.
\<close>

fun strstr :: "string \<Rightarrow> string \<Rightarrow> bool" where
  "strstr [] needle = (needle = [])"
| "strstr (c # cs) needle = (prefix needle (c # cs) \<or> strstr cs needle)"

text \<open>
  A relative path is resolved from the working directory, component by component:
  \<^verbatim>\<open>.\<close> and an empty component stay, \<^verbatim>\<open>..\<close> goes to the parent, and the parent
  of the root is the root.
\<close>

fun split_path :: "string \<Rightarrow> string \<Rightarrow> string list" where
  "split_path acc [] = [acc]"
| "split_path acc (c # cs) =
     (if c = CHR ''/'' then acc # split_path [] cs else split_path (acc @ [c]) cs)"

fun walk :: "string list \<Rightarrow> string list \<Rightarrow> string list" where
  "walk d [] = d"
| "walk d (c # cs) =
     walk (if c = [] \<or> c = ''.'' then d else if c = ''..'' then butlast d else d @ [c]) cs"

definition resolve :: "env \<Rightarrow> string \<Rightarrow> string list" where
  "resolve e path = walk (cwd e) (split_path [] path)"

definition abs_path :: "string list \<Rightarrow> string" where
  "abs_path d = (if d = [] then ''/'' else concat (map (\<lambda>c. CHR ''/'' # c) d))"

definition opendir :: "env \<Rightarrow> string \<Rightarrow> string list option" where
  "opendir e path = dirs e (resolve e path)"

definition canonicalize_file_name :: "env \<Rightarrow> string \<Rightarrow> string option" where
  "canonicalize_file_name e path =
     (case dirs e (resolve e path) of
        None \<Rightarrow> None
      | Some _ \<Rightarrow> Some (abs_path (resolve e path)))"

text \<open>
  The \<^verbatim>\<open>do ... while\<close> loop of \<^verbatim>\<open>findCssFile\<close>, one call per iteration.
  \<^verbatim>\<open>searchDir\<close> is an array of \<open>SEARCH_DIR_SIZE + 1\<close> bytes, so it holds a string of
  at most \<open>SEARCH_DIR_SIZE\<close> characters; a \<^verbatim>\<open>strcat\<close> that would make it longer is
  \<open>BufferOverflow\<close>. \<^verbatim>\<open>"../"\<close> is appended before the loop condition is tested.
  The result \<open>Inr None\<close> is the \<^verbatim>\<open>NULL\<close> the function returns when no css is found.
\<close>

function findCssLoop :: "env \<Rightarrow> string \<Rightarrow> string \<Rightarrow> fatal + string option" where
  "findCssLoop e root searchDir =
     (case opendir e searchDir of
        None \<Rightarrow> Inl AssertFail
      | Some entries \<Rightarrow>
          (case List.find (\<lambda>d_name. strstr d_name ''.css'') entries of
             Some d_name \<Rightarrow>
               if length searchDir + length d_name > SEARCH_DIR_SIZE then Inl BufferOverflow
               else Inr (Some (searchDir @ d_name))
           | None \<Rightarrow>
               (case canonicalize_file_name e searchDir of
                  None \<Rightarrow> Inl AssertFail
                | Some absPath \<Rightarrow>
                    if absPath = ''/'' then
                      Inl (Exit EXIT_INVOKED_OUTSIDE_HTML_ROOT
                             ''Invoked outside of html root hierarchy.\<newline>'')
                    else if length searchDir + 3 > SEARCH_DIR_SIZE then Inl BufferOverflow
                    else if absPath \<noteq> root then findCssLoop e root (searchDir @ ''../'')
                    else Inr None)))"
  by pat_completeness auto
termination
  by (relation "measure (\<lambda>(e, root, searchDir). SEARCH_DIR_SIZE + 1 - length searchDir)")
     (auto simp: SEARCH_DIR_SIZE_def)

declare findCssLoop.simps [simp del]

text \<open>
  The values \<^verbatim>\<open>searchDir\<close> takes: \<^verbatim>\<open>./\<close> followed by \<open>k\<close> times \<^verbatim>\<open>../\<close>.
\<close>

definition up :: "nat \<Rightarrow> string" where
  "up k = ''./'' @ concat (replicate k ''../'')"

definition findCssFile :: "env \<Rightarrow> string \<Rightarrow> fatal + string option" where
  "findCssFile e root = findCssLoop e root ''./''"

definition includeCSSFile :: "env \<Rightarrow> string \<Rightarrow> string \<Rightarrow> fatal + string" where
  "includeCSSFile e root outp =
     (case findCssFile e root of
        Inl f \<Rightarrow> Inl f
      | Inr None \<Rightarrow>
          Inl (Exit EXIT_NO_CSS_FILE (''No css file found under '' @ root @ ''\<newline>''))
      | Inr (Some cssFilename) \<Rightarrow>
          Inr (checked_fwrite g_LinkCloseTag
                (checked_fwrite ''\" ''
                  (checked_fwrite cssFilename
                    (checked_fwrite '' rel=\"stylesheet\" href=\"''
                      (checked_fwrite g_LinkOpenTag outp))))))"

subsection \<open>The head, the body and the page\<close>

text \<open>Run \<open>f\<close> on the result of \<open>m\<close> unless \<open>m\<close> stopped the process.\<close>

definition seq :: "fatal + 'a \<Rightarrow> ('a \<Rightarrow> fatal + 'b) \<Rightarrow> fatal + 'b" where
  "seq m f = (case m of Inl x \<Rightarrow> Inl x | Inr a \<Rightarrow> f a)"

definition includeTxtFile :: "env \<Rightarrow> string \<Rightarrow> string \<Rightarrow> fatal + string" where
  "includeTxtFile e g_RootFilename outp =
     (case files e (g_RootFilename @ ''.txt'') of
        None \<Rightarrow> Inr outp
      | Some txt \<Rightarrow> copyFile (st_blksize e) txt outp)"

definition addWebpageBody :: "env \<Rightarrow> Options \<Rightarrow> string \<Rightarrow> string \<Rightarrow> fatal + string" where
  "addWebpageBody e opts g_MarkdownFilename outp =
     (case files e g_MarkdownFilename of
        None \<Rightarrow> Inl AssertFail
      | Some md \<Rightarrow>
          seq (Inr (checked_fwrite g_BodyOpenTag outp)) (\<lambda>outp.
          seq (case cmark e md of None \<Rightarrow> Inl AssertFail | Some r \<Rightarrow> Inr r) (\<lambda>renderBuffer.
          seq (Inr (checked_fwrite renderBuffer outp)) (\<lambda>outp.
          seq (Inr (case navEmbedCode opts of
                      None \<Rightarrow> outp
                    | Some nav \<Rightarrow>
                        checked_fwrite g_CommentCloseTag
                          (checked_fwrite nav
                            (checked_fwrite '' NAVIGATION EMBEDDING GOES HERE \<newline>''
                              (checked_fwrite g_CommentOpenTag outp))))) (\<lambda>outp.
          Inr (checked_fwrite g_BodyCloseTag outp))))))"

text \<open>
  \<^verbatim>\<open>strftime(s, sizeof(s), "%c", tm)\<close> with \<^verbatim>\<open>char s[64]\<close>: the number of
  characters stored, or 0 when the text and its final zero byte do not fit.
\<close>

definition strftime_c :: "env \<Rightarrow> nat" where
  "strftime_c e = (if length (time_c e) < 64 then length (time_c e) else 0)"

definition addWebpageHead :: "env \<Rightarrow> Options \<Rightarrow> string \<Rightarrow> string \<Rightarrow> fatal + string" where
  "addWebpageHead e opts g_RootFilename outp =
     seq (Inr (checked_fwrite g_HeadOpenTag outp)) (\<lambda>outp.
     seq (Inr (if includeTitle opts then
                 checked_fwrite g_TitleCloseTag
                   (checked_fwrite g_RootFilename (checked_fwrite g_TitleOpenTag outp))
               else outp)) (\<lambda>outp.
     seq (if includeAuthor opts then
            seq (getUserName e) (\<lambda>username.
              Inr (checked_fwrite g_CommentCloseTag
                    (checked_fwrite username
                      (checked_fwrite ''Author is '' (checked_fwrite g_CommentOpenTag outp)))))
          else Inr outp) (\<lambda>outp.
     seq (if includeDatetime opts then
            if strftime_c e = 0 then Inl AssertFail
            else Inr (checked_fwrite g_CommentCloseTag
                       (checked_fwrite (time_c e)
                         (checked_fwrite ''Datetime is '' (checked_fwrite g_CommentOpenTag outp))))
          else Inr outp) (\<lambda>outp.
     seq (case cssRoot opts of
            None \<Rightarrow> Inr outp
          | Some root \<Rightarrow> includeCSSFile e root outp) (\<lambda>outp.
     seq (includeTxtFile e g_RootFilename outp) (\<lambda>outp.
     Inr (checked_fwrite g_HeadCloseTag outp)))))))"

text \<open>
  \<^verbatim>\<open>makeWebpageFile\<close> names the output file and opens it for writing, which
  leaves it empty.
\<close>

definition makeWebpageFile :: "string \<Rightarrow> string \<times> string" where
  "makeWebpageFile g_RootFilename = (g_RootFilename @ ''.html'', [])"

text \<open>The result is the name of the output file and its content when it is closed.\<close>

definition makeWebpage :: "env \<Rightarrow> Options \<Rightarrow> string \<Rightarrow> string \<Rightarrow> fatal + string \<times> string" where
  "makeWebpage e opts g_MarkdownFilename g_RootFilename =
     (let (g_WebpageFilename, outp) = makeWebpageFile g_RootFilename
      in seq (Inr (if includeDTD opts then checked_fwrite g_Doctype outp else outp)) (\<lambda>outp.
         seq (Inr (checked_fwrite g_PageOpenTag outp)) (\<lambda>outp.
         seq (addWebpageHead e opts g_RootFilename outp) (\<lambda>outp.
         seq (addWebpageBody e opts g_MarkdownFilename outp) (\<lambda>outp.
         Inr (g_WebpageFilename, checked_fwrite g_PageCloseTag outp))))))"

subsection \<open>The C library: strtol and getopt\<close>

text \<open>
  \<^verbatim>\<open>strtol(nptr, NULL, 16)\<close> on a machine whose \<^verbatim>\<open>long\<close> has 64 bits: white
  space is skipped, then an optional sign, an optional \<^verbatim>\<open>0x\<close> or \<^verbatim>\<open>0X\<close> that a
  hexadecimal digit follows, and the longest run of hexadecimal digits are read. A
  value out of range is replaced by the nearest bound. The second component is the
  number of characters converted, 0 when no conversion is performed (the value is 0
  then).
\<close>

definition LONG_MAX :: int where "LONG_MAX = 2 ^ 63 - 1"
definition LONG_MIN :: int where "LONG_MIN = - (2 ^ 63)"

definition isspace :: "char \<Rightarrow> bool" where
  "isspace c = (c \<in> set [CHR '' '', CHR 0x09, CHR 0x0A, CHR 0x0B, CHR 0x0C, CHR 0x0D])"

definition hexval :: "char \<Rightarrow> nat option" where
  "hexval c =
     (let n = (of_char c :: nat)
      in if 48 \<le> n \<and> n \<le> 57 then Some (n - 48)
         else if 97 \<le> n \<and> n \<le> 102 then Some (n - 87)
         else if 65 \<le> n \<and> n \<le> 70 then Some (n - 55)
         else None)"

definition strtol16 :: "string \<Rightarrow> int \<times> nat" where
  "strtol16 nptr =
     (let ws = takeWhile isspace nptr;
          s1 = dropWhile isspace nptr;
          neg = (s1 \<noteq> [] \<and> hd s1 = CHR ''-'');
          signed = (s1 \<noteq> [] \<and> (hd s1 = CHR ''-'' \<or> hd s1 = CHR ''+''));
          s2 = (if signed then tl s1 else s1);
          prefixed = (case s2 of
                        z # x # h # _ \<Rightarrow>
                          z = CHR ''0'' \<and> (x = CHR ''x'' \<or> x = CHR ''X'') \<and> hexval h \<noteq> None
                      | _ \<Rightarrow> False);
          s3 = (if prefixed then drop 2 s2 else s2);
          ds = takeWhile (\<lambda>c. hexval c \<noteq> None) s3;
          v = foldl (\<lambda>a c. 16 * a + int (the (hexval c))) 0 ds
      in if ds = [] then (0, 0)
         else (if neg then max LONG_MIN (- v) else min LONG_MAX v,
               length ws + (if signed then 1 else 0) + (if prefixed then 2 else 0)
                 + length ds))"

text \<open>
  GNU \<^verbatim>\<open>getopt\<close> with \<^verbatim>\<open>opterr = 0\<close> and \<^verbatim>\<open>POSIXLY_CORRECT\<close> unset, run
  until it returns -1 over the arguments that follow \<^verbatim>\<open>argv[0]\<close>. \<open>Got c a o\<close>
  is one return: the value \<open>c\<close> returned, \<^verbatim>\<open>optarg\<close> and \<^verbatim>\<open>optopt\<close> (the
  program reads \<^verbatim>\<open>optopt\<close> after an error only).

  An argument that starts with \<^verbatim>\<open>-\<close> and is neither \<^verbatim>\<open>-\<close> nor \<^verbatim>\<open>--\<close> is a
  cluster of option characters. A character that is not in the option string gives
  \<^verbatim>\<open>?\<close>. A character that the option string follows by a colon takes the rest of
  the cluster as its argument, or the next argument when nothing is left of the
  cluster; when there is no next argument the return is \<^verbatim>\<open>:\<close> if the option string
  starts with a colon and \<^verbatim>\<open>?\<close> otherwise. \<^verbatim>\<open>--\<close> ends the options. Every other
  argument is a non-option; getopt moves the non-options behind the options, keeping
  the order of each group.
\<close>

datatype got = Got char string char

definition valid_opt :: "string \<Rightarrow> char \<Rightarrow> bool" where
  "valid_opt optstring c = (c \<in> set optstring \<and> c \<noteq> CHR '':'' \<and> c \<noteq> CHR '';'')"

definition takes_arg :: "string \<Rightarrow> char \<Rightarrow> bool" where
  "takes_arg optstring c =
     (case dropWhile (\<lambda>x. x \<noteq> c) optstring of
        _ # y # _ \<Rightarrow> y = CHR '':''
      | _ \<Rightarrow> False)"

definition missing_ret :: "string \<Rightarrow> char" where
  "missing_ret optstring =
     (if optstring \<noteq> [] \<and> hd optstring = CHR '':'' then CHR '':'' else CHR ''?'')"

text \<open>
  One cluster: the returns it gives, and whether it took the next argument.
\<close>

fun scan_cluster :: "string \<Rightarrow> string \<Rightarrow> string option \<Rightarrow> got list \<times> bool" where
  "scan_cluster optstring [] nxt = ([], False)"
| "scan_cluster optstring (c # cs) nxt =
     (if \<not> valid_opt optstring c then
        (let (gs, used) = scan_cluster optstring cs nxt
         in (Got (CHR ''?'') [] c # gs, used))
      else if takes_arg optstring c then
        (if cs \<noteq> [] then ([Got c cs c], False)
         else case nxt of
                None \<Rightarrow> ([Got (missing_ret optstring) [] c], False)
              | Some a \<Rightarrow> ([Got c a c], True))
      else
        (let (gs, used) = scan_cluster optstring cs nxt
         in (Got c [] c # gs, used)))"

text \<open>
  \<open>option_element a\<close>: \<open>a\<close> starts with \<^verbatim>\<open>-\<close> and is not \<^verbatim>\<open>-\<close> alone.
  All of \<open>argv\<close>: the returns in order, the arguments taken as options (with their
  values and a final \<^verbatim>\<open>--\<close>) and the non-options. After the last return
  \<open>argv\<close> holds the second list followed by the third, and \<^verbatim>\<open>optind\<close> is the index
  of the first non-option.
\<close>

definition option_element :: "string \<Rightarrow> bool" where
  "option_element a = (a \<noteq> [] \<and> hd a = CHR ''-'' \<and> tl a \<noteq> [])"

fun getopt_all :: "string \<Rightarrow> string list \<Rightarrow> got list \<times> string list \<times> string list" where
  "getopt_all optstring [] = ([], [], [])"
| "getopt_all optstring (a # rest) =
     (if a = ''--'' then ([], [a], rest)
      else if option_element a then
        (let (gs, used) = scan_cluster optstring (tl a)
                            (case rest of [] \<Rightarrow> None | x # _ \<Rightarrow> Some x);
             (gs', opts, nonopts) = getopt_all optstring (if used then tl rest else rest)
         in (gs @ gs', a # (if used then [hd rest] else []) @ opts, nonopts))
      else
        (let (gs', opts, nonopts) = getopt_all optstring rest
         in (gs', opts, a # nonopts)))"

subsection \<open>getOptions and main\<close>

definition printHelp :: string where
  "printHelp =
     ''Usage: webpage [-h] [-v] [-f <flags> ] [-c <abs path to html root>] [-n navembedcode] <markdown file>\<newline>\<newline>''
   @ ''Broadly speaking, the expectation is that this tool will be used as part of a script that\<newline>''
   @ ''traverses a directory hierarchy containing md files and converts them to html. In particular,\<newline>''
   @ ''it'' @ [CHR 0x27] @ ''s expected that the markdown file resides in the current working directory, and that this\<newline>''
   @ ''directory is underneath html root ( yes, html root not markdown root ).\<newline>\<newline>''
   @ '' -h                        : print this help\<newline>''
   @ '' -v                        : output verbose information\<newline>''
   @ '' -f <flags>                : <flags> are bitwise as follows -\<newline>''
   @ ''                           : 0x01 - omit DOCTYPE \<newline>''
   @ ''                           : 0x02 - omit title \<newline>''
   @ ''                           : 0x04 - omit datetime\<newline>''
   @ ''                           : 0x08 - omit author\<newline>''
   @ '' -c <abs path to html root>: Enables linking to css file. File linked will be first found\<newline>''
   @ ''                             searching from cwd towards html root. NB Requires an absolute,\<newline>''
   @ ''                             not relative, path.\<newline>''
   @ '' -n <navembedcode>         : Provide for ability to tack a special embedding on to the body for\<newline>''
   @ ''                             navigation purposes.\<newline>''
   @ '' <markdown file>           : File containing Commonmark markdown. Beware of complications if\<newline>''
   @ ''                             this file is not in the cwd, particularly if using the ''
   @ [CHR 0x27] @ ''c'' @ [CHR 0x27] @ '' option.\<newline>\<newline>''"

text \<open>The decimal digits of \<open>n\<close>.\<close>

function decimal :: "nat \<Rightarrow> string" where
  "decimal n =
     (if n < 10 then [char_of (48 + n)] else decimal (n div 10) @ [char_of (48 + n mod 10)])"
  by pat_completeness auto
termination
  by (relation "measure id") auto

text \<open>
  \<^verbatim>\<open>printf("%d", optopt)\<close>: \<^verbatim>\<open>optopt\<close> holds the option character as a signed
  \<^verbatim>\<open>char\<close>, so a byte from 128 on is printed as a negative number.
\<close>

definition printf_d :: "char \<Rightarrow> string" where
  "printf_d c =
     (let n = (of_char c :: nat)
      in if n < 128 then decimal n else CHR ''-'' # decimal (256 - n))"

text \<open>The four tests on \<^verbatim>\<open>flags\<close> in the case \<^verbatim>\<open>'f'\<close>.\<close>

definition setFlags :: "int \<Rightarrow> Options \<Rightarrow> Options" where
  "setFlags flags opts =
     (let opts = (if flag_dtd AND flags \<noteq> 0 then opts\<lparr>includeDTD := False\<rparr> else opts);
          opts = (if flag_title AND flags \<noteq> 0 then opts\<lparr>includeTitle := False\<rparr> else opts);
          opts = (if flag_author AND flags \<noteq> 0 then opts\<lparr>includeAuthor := False\<rparr> else opts);
          opts = (if flag_datetime AND flags \<noteq> 0 then opts\<lparr>includeDatetime := False\<rparr> else opts)
      in opts)"

text \<open>The body of the second \<^verbatim>\<open>while\<close> loop: the \<^verbatim>\<open>switch\<close> on one return.\<close>

fun handleOption :: "Options \<Rightarrow> got \<Rightarrow> fatal + Options" where
  "handleOption opts (Got option optarg optopt) =
     (if option = CHR ''h'' then Inl (Exit EXIT_NORMAL printHelp)
      else if option = CHR ''v'' then Inr opts
      else if option = CHR ''f'' then Inr (setFlags (fst (strtol16 optarg)) opts)
      else if option = CHR ''c'' then
        (if optarg = [] \<or> hd optarg \<noteq> CHR ''/'' then
           Inl (Exit EXIT_ABS_PATH_REQUIRED
                  (''Absolute path required for '' @ [CHR 0x27] @ ''c'' @ [CHR 0x27]
                     @ '' option\<newline>''))
         else Inr (opts\<lparr>cssRoot := Some optarg\<rparr>))
      else if option = CHR ''n'' then Inr (opts\<lparr>navEmbedCode := Some optarg\<rparr>)
      else if option = CHR '':'' then
        Inl (Exit EXIT_MISSING_VALUE
               (''Option '' @ printf_d optopt @ '' requires a value\<newline>''))
      else if option = CHR ''?'' then
        Inl (Exit EXIT_UNKNOWN_OPTION
               (''Unknown option '' @ printf_d optopt @ '' specified\<newline>''))
      else Inl AssertFail)"

fun handleOptions :: "Options \<Rightarrow> got list \<Rightarrow> fatal + Options" where
  "handleOptions opts [] = Inr opts"
| "handleOptions opts (g # gs) = seq (handleOption opts g) (\<lambda>opts. handleOptions opts gs)"

text \<open>The first loop only looks for \<^verbatim>\<open>v\<close>.\<close>

fun verboseOnly :: "Options \<Rightarrow> got list \<Rightarrow> Options" where
  "verboseOnly opts [] = opts"
| "verboseOnly opts (Got option optarg optopt # gs) =
     verboseOnly (if option = CHR ''v'' then opts\<lparr>verbose := True\<rparr> else opts) gs"

text \<open>\<^verbatim>\<open>strrchr(g_RootFilename, '.')\<close> and the cut at the place it finds.\<close>

definition rootFilename :: "string \<Rightarrow> string" where
  "rootFilename name =
     (if CHR ''.'' \<in> set name then rev (tl (dropWhile (\<lambda>c. c \<noteq> CHR ''.'') (rev name)))
      else name)"

text \<open>
  \<open>argv\<close> is the argument list without \<^verbatim>\<open>argv[0]\<close>. The first loop leaves
  \<open>argv\<close> permuted, and the second runs over the permuted list. The result is the
  options, \<^verbatim>\<open>g_MarkdownFilename\<close> and \<^verbatim>\<open>g_RootFilename\<close>.
\<close>

definition getOptions :: "string list \<Rightarrow> fatal + Options \<times> string \<times> string" where
  "getOptions argv =
     (let (gs1, opts1, nonopts1) = getopt_all ''v'' argv;
          opts = verboseOnly g_Options gs1;
          argv = opts1 @ nonopts1;
          (gs2, opts2, nonopts2) = getopt_all ''hvf:c:n:'' argv
      in seq (handleOptions opts gs2) (\<lambda>opts.
           let argc = 1 + length argv;
               optind = 1 + length opts2
           in if optind = argc then
                Inl (Exit EXIT_NO_MARKDOWN ''Expecting a markdown file to be specified\<newline>'')
              else if optind + 1 \<noteq> argc then Inl AssertFail
              else let g_MarkdownFilename = hd nonopts2
                   in Inr (opts, g_MarkdownFilename, rootFilename g_MarkdownFilename)))"

definition webpage_main :: "env \<Rightarrow> string list \<Rightarrow> fatal + string \<times> string" where
  "webpage_main e argv =
     seq (getOptions argv) (\<lambda>(opts, g_MarkdownFilename, g_RootFilename).
       makeWebpage e opts g_MarkdownFilename g_RootFilename)"

subsection \<open>webpages.sh: the options it passes to webpage\<close>

text \<open>
  The shell variables after the script has read its own options, each a string as in
  the shell. \<open>verbose\<close> of the script is \<open>verbose_sh\<close> here. \<open>default_config\<close> is
  what they hold when the script is given no option (\<open>htmlroot\<close> is derived from the
  name of the working directory, its last component \<open>base\<close>).
\<close>

record config =
  navembedcode :: string
  markdownroot :: string
  htmlroot :: string
  css :: string
  verbose_sh :: string
  flags :: string

definition default_config :: "string \<Rightarrow> config" where
  "default_config base =
     \<lparr> navembedcode = [], markdownroot = ''.'', htmlroot = ''../'' @ base @ ''_html'',
       css = ''false'', verbose_sh = ''false'', flags = [] \<rparr>"

definition verboseOption :: "config \<Rightarrow> string" where
  "verboseOption cfg = (if verbose_sh cfg = ''true'' then '' -v '' else [])"

definition navembedcodeOption :: "config \<Rightarrow> string" where
  "navembedcodeOption cfg =
     (if navembedcode cfg \<noteq> [] then '' -n '' @ navembedcode cfg @ '' '' else [])"

definition flagsOption :: "config \<Rightarrow> string" where
  "flagsOption cfg = (if flags cfg \<noteq> [] then '' -F '' @ flags cfg @ '' '' else [])"

text \<open>
  \<^verbatim>\<open>if [[ ${css} ]]\<close>: a single word between the double brackets is true when it is
  not the empty string.
\<close>

definition cssOption :: "config \<Rightarrow> string \<Rightarrow> string" where
  "cssOption cfg abshtmlroot = (if css cfg \<noteq> [] then '' -c '' @ abshtmlroot @ '' '' else [])"

text \<open>
  An unquoted expansion is split into words at spaces, tabs and newlines (pathname
  expansion of the words is not modelled).
\<close>

fun word_split :: "string \<Rightarrow> string \<Rightarrow> string list" where
  "word_split acc [] = (if acc = [] then [] else [acc])"
| "word_split acc (c # cs) =
     (if c \<in> set [CHR '' '', CHR 0x09, CHR 0x0A] then
        (if acc = [] then [] else [acc]) @ word_split [] cs
      else word_split (acc @ [c]) cs)"

text \<open>
  The arguments of one \<^verbatim>\<open>webpage\<close> run under \<^verbatim>\<open>find . -name "*.md" -execdir\<close>,
  which replaces \<^verbatim>\<open>{}\<close> by \<^verbatim>\<open>./\<close> and the name of the file.
\<close>

definition webpage_argv :: "config \<Rightarrow> string \<Rightarrow> string \<Rightarrow> string list" where
  "webpage_argv cfg abshtmlroot md =
     word_split [] (verboseOption cfg) @ word_split [] (flagsOption cfg)
       @ word_split [] (cssOption cfg abshtmlroot) @ word_split [] (navembedcodeOption cfg)
       @ [''./'' @ md]"

subsection \<open>webpages.sh: the link rewrite\<close>

text \<open>
  \<^verbatim>\<open>sed 's/\.md\">/\.html\">/g'\<close> on one pattern space: from left to right, every
  occurrence of \<open>md_link\<close> that does not overlap an earlier one is replaced by
  \<open>html_link\<close>. sed applies it to each line; neither text holds a newline.
\<close>

definition md_link :: string where "md_link = ''.md\">''"
definition html_link :: string where "html_link = ''.html\">''"

fun sed_link_rewrite :: "string \<Rightarrow> string" where
  "sed_link_rewrite [] = []"
| "sed_link_rewrite (c # cs) =
     (if prefix md_link (c # cs) then html_link @ sed_link_rewrite (drop 4 cs)
      else c # sed_link_rewrite cs)"

subsection \<open>webpages.sh: the cleanup\<close>

text \<open>
  The tree under html-root: a file with its name and content, or a directory with
  its name and entries.
\<close>

datatype entry = File string string | Dir string "entry list"

text \<open>
  \<^verbatim>\<open>-name "*<ext>"\<close>: the base name ends with \<open>ext\<close> (a leading dot is matched by
  the star as well).
\<close>

definition name_star :: "string \<Rightarrow> string \<Rightarrow> bool" where
  "name_star ext n = suffix ext n"








subsection \<open>Sample inputs\<close>

text \<open>
  A page \<^verbatim>\<open>docs/index.md\<close> with a sidecar \<^verbatim>\<open>index.txt\<close>, below the html root
  \<^verbatim>\<open>/srv/site_html\<close>, which holds \<^verbatim>\<open>style.css\<close>. \<open>block_env\<close> is the same with a
  sidecar of exactly one block of 4096 bytes.
\<close>

definition site_env :: env where
  "site_env =
     \<lparr> cwd = [''srv'', ''site_html'', ''docs''],
       dirs = (\<lambda>d. if d = [''srv'', ''site_html'', ''docs''] then
                       Some [''.'', ''..'', ''index.md'', ''index.txt'']
                   else if d = [''srv'', ''site_html''] then
                       Some [''.'', ''..'', ''docs'', ''style.css'']
                   else if d = [''srv''] then Some [''.'', ''..'', ''site_html'']
                   else if d = [] then Some [''.'', ''..'', ''srv'']
                   else None),
       files = (\<lambda>n. if n = ''./index.md'' then Some ''# Hi\<newline>''
                    else if n = ''./index.txt'' then Some ''<meta charset=\"utf-8\">\<newline>''
                    else None),
       st_blksize = 4096,
       pw_name = Some ''mark'',
       time_c = ''Tue Nov  3 07:07:00 2026'',
       cmark = (\<lambda>md. Some ''<h1>Hi</h1>\<newline>'') \<rparr>"

definition block_env :: env where
  "block_env =
     site_env\<lparr>files := (\<lambda>n. if n = ''./index.md'' then Some ''# Hi\<newline>''
                             else if n = ''./index.txt'' then Some (replicate 4096 (CHR ''a''))
                             else None)\<rparr>"

text \<open>
  \<open>nested_env\<close>: a page two levels below the html root \<^verbatim>\<open>/srv/site_html\<close>, with
  one stylesheet in its parent directory and one in the html root. \<open>bak_env\<close>: the
  parent lists \<^verbatim>\<open>docs.css.bak\<close> before \<^verbatim>\<open>docs.css\<close>. \<open>bare_env\<close>: no stylesheet
  anywhere. \<open>deep_env\<close>: a page 84 levels below \<^verbatim>\<open>/r\<close>, no stylesheet anywhere.
\<close>

definition nested_env :: env where
  "nested_env =
     site_env\<lparr>cwd := [''srv'', ''site_html'', ''docs'', ''api''],
       dirs := (\<lambda>d. if d = [''srv'', ''site_html'', ''docs'', ''api''] then
                       Some [''.'', ''..'', ''ref.md'']
                   else if d = [''srv'', ''site_html'', ''docs''] then
                       Some [''.'', ''..'', ''api'', ''index.md'', ''docs.css'']
                   else if d = [''srv'', ''site_html''] then
                       Some [''.'', ''..'', ''docs'', ''style.css'']
                   else if d = [''srv''] then Some [''.'', ''..'', ''site_html'']
                   else if d = [] then Some [''.'', ''..'', ''srv'']
                   else None)\<rparr>"

definition bak_env :: env where
  "bak_env =
     site_env\<lparr>cwd := [''srv'', ''site_html'', ''docs'', ''api''],
       dirs := (\<lambda>d. if d = [''srv'', ''site_html'', ''docs'', ''api''] then
                       Some [''.'', ''..'', ''ref.md'']
                   else if d = [''srv'', ''site_html'', ''docs''] then
                       Some [''.'', ''..'', ''api'', ''docs.css.bak'', ''docs.css'']
                   else if d = [''srv'', ''site_html''] then
                       Some [''.'', ''..'', ''docs'']
                   else if d = [''srv''] then Some [''.'', ''..'', ''site_html'']
                   else if d = [] then Some [''.'', ''..'', ''srv'']
                   else None)\<rparr>"

definition bare_env :: env where
  "bare_env =
     site_env\<lparr>cwd := [''srv'', ''docs''],
       dirs := (\<lambda>d. if d = [''srv'', ''docs''] then Some [''.'', ''..'', ''index.md'']
                   else if d = [''srv''] then Some [''.'', ''..'', ''docs'']
                   else if d = [] then Some [''.'', ''..'', ''srv'']
                   else None)\<rparr>"

definition deep_env :: env where
  "deep_env = site_env\<lparr>cwd := ''r'' # replicate 84 ''d'', dirs := (\<lambda>d. Some [''.'', ''..''])\<rparr>"



section \<open>Properties\<close>

subsection \<open>The link rewrite\<close>

lemma strstr_iff: "strstr s p \<longleftrightarrow> (\<exists>a b. s = a @ p @ b)"
proof (induction s)
  case Nil
  then show ?case by auto
next
  case (Cons c cs)
  show ?case
  proof
    assume "strstr (c # cs) p"
    then consider "prefix p (c # cs)" | "strstr cs p" by auto
    then show "\<exists>a b. c # cs = a @ p @ b"
    proof cases
      case 1
      then obtain b where "c # cs = p @ b" by (auto simp: prefix_def)
      then have "c # cs = [] @ p @ b" by simp
      then show ?thesis by blast
    next
      case 2
      with Cons.IH obtain a b where "cs = a @ p @ b" by blast
      then have "c # cs = (c # a) @ p @ b" by simp
      then show ?thesis by blast
    qed
  next
    assume "\<exists>a b. c # cs = a @ p @ b"
    then obtain a b where ab: "c # cs = a @ p @ b" by blast
    show "strstr (c # cs) p"
    proof (cases a)
      case Nil
      with ab have "c # cs = p @ b" by simp
      then have "prefix p (c # cs)" by (metis prefixI)
      then show ?thesis by simp
    next
      case (Cons x a')
      with ab have "cs = a' @ p @ b" by simp
      with Cons.IH have "strstr cs p" by blast
      then show ?thesis by simp
    qed
  qed
qed

text \<open>A character of the output other than a dot was copied from the input.\<close>

lemma sed_head_kept:
  "sed_link_rewrite t = c # r \<Longrightarrow> c \<noteq> CHR ''.'' \<Longrightarrow>
   \<exists>t'. t = c # t' \<and> r = sed_link_rewrite t'"
  by (cases t) (auto simp: html_link_def split: if_splits)

lemma sed_no_new_match:
  assumes "prefix md_link (c # sed_link_rewrite t)"
  shows "prefix md_link (c # t)"
proof -
  from assms obtain r0 where c: "c = CHR ''.''"
    and r0: "sed_link_rewrite t = CHR ''m'' # CHR ''d'' # CHR 0x22 # CHR ''>'' # r0"
    by (auto simp: md_link_def prefix_def)
  from sed_head_kept[OF r0] obtain t1 where t1: "t = CHR ''m'' # t1"
    "CHR ''d'' # CHR 0x22 # CHR ''>'' # r0 = sed_link_rewrite t1" by auto
  from sed_head_kept[OF t1(2)[symmetric]] obtain t2 where t2: "t1 = CHR ''d'' # t2"
    "CHR 0x22 # CHR ''>'' # r0 = sed_link_rewrite t2" by auto
  from sed_head_kept[OF t2(2)[symmetric]] obtain t3 where t3: "t2 = CHR 0x22 # t3"
    "CHR ''>'' # r0 = sed_link_rewrite t3" by auto
  from sed_head_kept[OF t3(2)[symmetric]] obtain t4 where t4: "t3 = CHR ''>'' # t4" by auto
  show ?thesis using c t1(1) t2(1) t3(1) t4 by (simp add: md_link_def)
qed

lemma strstr_html_link: "strstr (html_link @ r) md_link = strstr r md_link"
  by (simp add: md_link_def html_link_def)

lemma sed_output_clean: "\<not> strstr (sed_link_rewrite s) md_link"
proof (induction s rule: sed_link_rewrite.induct)
  case 1
  then show ?case by (simp add: md_link_def)
next
  case (2 c cs)
  show ?case
  proof (cases "prefix md_link (c # cs)")
    case True
    with 2 have "\<not> strstr (sed_link_rewrite (drop 4 cs)) md_link" by simp
    then show ?thesis using True by (simp add: strstr_html_link)
  next
    case False
    with 2 have "\<not> strstr (sed_link_rewrite cs) md_link" by simp
    moreover have "\<not> prefix md_link (c # sed_link_rewrite cs)"
      using False sed_no_new_match by blast
    ultimately show ?thesis using False by simp
  qed
qed

lemma sed_fixes_clean: "\<not> strstr s md_link \<Longrightarrow> sed_link_rewrite s = s"
  by (induction s) auto

text \<open>
  sed works line by line. Rewriting a whole text is the same as rewriting its lines,
  since no match can span a newline.
\<close>

lemma prefix_before_sep:
  "x \<notin> set p \<Longrightarrow> prefix p (a @ x # b) \<longleftrightarrow> prefix p a"
  by (auto simp: prefix_append prefix_Cons)

lemma sed_newline:
  "sed_link_rewrite (a @ CHR 0x0A # b) = sed_link_rewrite a @ CHR 0x0A # sed_link_rewrite b"
proof (induction a rule: sed_link_rewrite.induct)
  case 1
  then show ?case by (simp add: md_link_def)
next
  case (2 c cs)
  have iff: "prefix md_link ((c # cs) @ CHR 0x0A # b) \<longleftrightarrow> prefix md_link (c # cs)"
    by (rule prefix_before_sep) (simp add: md_link_def)
  show ?case
  proof (cases "prefix md_link (c # cs)")
    case True
    then have "4 \<le> length cs" by (auto simp: md_link_def prefix_def)
    then show ?thesis using True 2 iff by simp
  next
    case False
    then show ?thesis using 2 iff by simp
  qed
qed

text \<open>
  C6. The link rewrite is idempotent: for every text, rewriting the rewritten text
  gives the rewritten text again, and the rewritten text holds no occurrence of
  \<^verbatim>\<open>.md">\<close>.
\<close>

theorem link_rewrite_idempotent:
  "sed_link_rewrite (sed_link_rewrite s) = sed_link_rewrite s
   \<and> \<not> (\<exists>a b. sed_link_rewrite s = a @ md_link @ b)"
  using sed_fixes_clean[OF sed_output_clean] sed_output_clean[of s]
  by (simp add: strstr_iff)

theorem link_rewrite_idempotent_witness:
  "sed_link_rewrite ''<a href=\"other.md\">x</a> b.md'' = ''<a href=\"other.html\">x</a> b.md''
   \<and> sed_link_rewrite ''<a href=\"other.html\">x</a> b.md'' = ''<a href=\"other.html\">x</a> b.md''"
proof -
  have r: "sed_link_rewrite ''<a href=\"other.md\">x</a> b.md'' = ''<a href=\"other.html\">x</a> b.md''"
    by (simp add: md_link_def html_link_def)
  from link_rewrite_idempotent[of "''<a href=\"other.md\">x</a> b.md''"]
  have "sed_link_rewrite (sed_link_rewrite ''<a href=\"other.md\">x</a> b.md'')
        = sed_link_rewrite ''<a href=\"other.md\">x</a> b.md''" by (rule conjunct1)
  with r show ?thesis by simp
qed

subsection \<open>The options the orchestrator passes\<close>

text \<open>
  C1. The claim: with css left at its default (off) no \<^verbatim>\<open>-c\<close> is passed to the
  assembler and no page holds a stylesheet link. The script tests \<^verbatim>\<open>[[ ${css} ]]\<close>,
  which holds for the default value \<^verbatim>\<open>false\<close> as for any other non-empty string:
  with the default configuration the assembler is run with \<^verbatim>\<open>-c\<close> and the html
  root, and the page it writes holds a stylesheet link.
\<close>

theorem css_off_still_links:
  "css (default_config ''site'') = ''false''
   \<and> webpage_argv (default_config ''site'') ''/srv/site_html'' ''index.md''
       = [''-c'', ''/srv/site_html'', ''./index.md'']
   \<and> webpage_main site_env
         (webpage_argv (default_config ''site'') ''/srv/site_html'' ''index.md'')
       = Inr (''./index.html'',
           ''<!DOCTYPE html>\<newline><html>\<newline><head>\<newline><title>./index</title>\<newline><!--Author is mark-->\<newline><!--Datetime is Tue Nov  3 07:07:00 2026-->\<newline><link  rel=\"stylesheet\" href=\"./../style.css\"  >\<newline><meta charset=\"utf-8\">\<newline></head>\<newline><body>\<newline><h1>Hi</h1>\<newline></body>\<newline></html>\<newline>'')"
  by code_simp

subsection \<open>copyFile and the sidecar text\<close>

lemma int32_id: "- (2 ^ 31) \<le> x \<Longrightarrow> x < 2 ^ 31 \<Longrightarrow> int32 x = x"
  by (simp add: int32_def)

lemma int32_nat: "n < 2 ^ 31 \<Longrightarrow> int32 (int n) = int n"
  by (rule int32_id) simp_all

lemma int32_less: "int32 x < 2 ^ 31"
proof -
  have "(x + 2 ^ 31) mod 2 ^ 32 < (2 ^ 32 :: int)" by simp
  then show ?thesis by (simp add: int32_def)
qed

text \<open>
  What the loop of \<^verbatim>\<open>copyFile\<close> returns when it starts at a block boundary of a file
  of less than \<open>2\<^sup>3\<^sup>1\<close> bytes: all of the input is read, and all of it is written
  unless the input ends at a block boundary, in which case the last block is not written.
\<close>

lemma copyLoop_char:
  assumes B: "0 < B" and small: "w * B + length inp < 2 ^ 31"
  shows "copyLoop B (w * B + length inp) inp (int (w * B)) (int w) outp =
     Some (Inr (int (w * B + length inp),
           (if inp \<noteq> [] \<and> length inp mod B = 0 then int (w * B + length inp - B)
            else int (w * B + length inp)),
           (if inp \<noteq> [] \<and> length inp mod B = 0 then outp @ take (length inp - B) inp
            else outp @ inp)))"
  using small
proof (induction "length inp" arbitrary: inp w outp rule: less_induct)
  case less
  note small = less.prems
  have wB: "w * B < 2 ^ 31" using small by simp
  show ?case
  proof (cases "B < length inp")
    case True
    let ?inp' = "drop B inp"
    have len: "length ?inp' < length inp" using True B by simp
    have small': "(w + 1) * B + length ?inp' < 2 ^ 31" using small True by (simp add: algebra_simps)
    have w1: "w + 1 < 2 ^ 31"
    proof -
      have "w + 1 \<le> (w + 1) * B" using B by (cases B) simp_all
      with small' show ?thesis by linarith
    qed
    have rd: "int32 (int (w * B) + int (length (take B inp))) = int ((w + 1) * B)"
    proof -
      have "int (w * B) + int (length (take B inp)) = int ((w + 1) * B)"
        using True by (simp add: algebra_simps)
      moreover have "(w + 1) * B < 2 ^ 31" using small' by simp
      ultimately show ?thesis by (simp only: int32_nat)
    qed
    have wr: "int32 (int w + 1) = int (w + 1)"
    proof -
      have "int w + 1 = int (w + 1)" by simp
      then show ?thesis by (simp only: int32_nat[OF w1])
    qed
    have step: "copyLoop B (w * B + length inp) inp (int (w * B)) (int w) outp
        = copyLoop B ((w + 1) * B + length ?inp') ?inp' (int ((w + 1) * B)) (int (w + 1))
            (outp @ take B inp)"
      apply (subst copyLoop.simps)
      unfolding Let_def rd
      using True B wr apply (simp add: algebra_simps)
      done
    have ne: "?inp' \<noteq> []" using True by simp
    have modeq: "length ?inp' mod B = length inp mod B" using True
      by (simp add: le_mod_geq)
    have tk: "take B inp @ take (length ?inp' - B) ?inp' = take (length inp - B) inp"
      if "length ?inp' mod B = 0"
    proof -
      from that ne B have "B \<le> length ?inp'"
        by (metis dvd_imp_le length_greater_0_conv mod_eq_0_iff_dvd)
      then have "length inp - B = B + (length ?inp' - B)" by simp
      then show ?thesis by (simp only: take_add)
    qed
    show ?thesis
      unfolding step less.hyps[OF len small']
      using True ne modeq tk apply (auto simp: algebra_simps)
      done
  next
    case False
    have rd: "int32 (int (w * B) + int (length (take B inp))) = int (w * B + length inp)"
    proof -
      have "int (w * B) + int (length (take B inp)) = int (w * B + length inp)"
        using False by (simp add: min_def)
      then show ?thesis by (simp only: int32_nat[OF small])
    qed
    have wm: "int32 (int w * int B) = int (w * B)"
    proof -
      have "int w * int B = int (w * B)" by simp
      then show ?thesis by (simp only: int32_nat[OF wB])
    qed
    from False consider "length inp = B" | "length inp < B" by linarith
    then show ?thesis
    proof cases
      case 1
      then have ne: "inp \<noteq> []" using B by auto
      have md: "int (w * B + length inp) mod int B = 0" using 1
        by (metis add.commute mod_mult_self3 mod_self of_nat_0 of_nat_mod)
      show ?thesis
        apply (subst copyLoop.simps)
        unfolding Let_def rd wm md
        using 1 B ne int32_nat[OF wB] apply simp
        done
    next
      case 2
      have md: "nat (int (w * B + length inp) mod int B) = length inp" using 2
        by (metis add.commute mod_less mod_mult_self3 nat_int of_nat_mod)
      show ?thesis
        apply (subst copyLoop.simps)
        unfolding Let_def rd wm md
        using 2 B int32_nat[OF small] apply simp
        done
    qed
  qed
qed

lemma copyFile_char:
  assumes "0 < B" and "length input < 2 ^ 31"
  shows "copyFile B input outp =
     (if input \<noteq> [] \<and> length input mod B = 0 then Inl AssertFail else Inr (outp @ input))"
proof -
  have "B \<le> length input" if "input \<noteq> []" "length input mod B = 0"
    using that assms by (metis dvd_imp_le length_greater_0_conv mod_eq_0_iff_dvd)
  then show ?thesis
    using copyLoop_char[of B 0 input outp] assms by (auto simp: copyFile_def)
qed


text \<open>
  With a block size of 0 nothing is ever read: for an empty input the remainder
  traps, and for any other the loop is never left. For a file of \<open>2\<^sup>3\<^sup>1\<close> bytes or
  more \<^verbatim>\<open>bytesRead\<close> cannot reach the size, and the loop is never left either.
\<close>

lemma copyLoop_stuck_aux:
  assumes "copyLoop B S inp r w outp = Some y"
  shows "\<not> ((B = 0 \<and> r < int S \<and> - (2 ^ 31) \<le> r) \<or> 2 ^ 31 \<le> int S)"
proof (rule copyLoop.raw_induct[where
      P = "\<lambda>B S inp r w outp y. \<not> ((B = 0 \<and> r < int S \<and> - (2 ^ 31) \<le> r) \<or> 2 ^ 31 \<le> int S)",
      OF _ assms])
  fix f :: "nat \<Rightarrow> nat \<Rightarrow> string \<Rightarrow> int \<Rightarrow> int \<Rightarrow> string
              \<Rightarrow> (fatal + int \<times> int \<times> string) option"
  fix B S :: nat and inp :: string and r w :: int and outp :: string and y
  assume IH: "\<And>B S inp r w outp y. f B S inp r w outp = Some y
      \<Longrightarrow> \<not> ((B = 0 \<and> r < int S \<and> - (2 ^ 31) \<le> r) \<or> 2 ^ 31 \<le> int S)"
    and body: "(let readBuffer = take B inp;
                    bytesRead = int32 (r + int (length readBuffer))
                in if bytesRead \<le> int S then
                     if bytesRead < int S then
                       f B S (drop B inp) bytesRead (int32 (w + (if B = 0 then 0 else 1)))
                         (outp @ readBuffer)
                     else if B = 0 then Some (Inl ArithTrap)
                     else
                       (let written = int32 (w * int B);
                            remainder = nat (bytesRead mod int B)
                        in Some (Inr (bytesRead, int32 (written + int remainder),
                                      outp @ take remainder readBuffer)))
                   else Some (Inr (bytesRead, w, outp))) = Some y"
  show "\<not> ((B = 0 \<and> r < int S \<and> - (2 ^ 31) \<le> r) \<or> 2 ^ 31 \<le> int S)"
  proof
    assume "(B = 0 \<and> r < int S \<and> - (2 ^ 31) \<le> r) \<or> 2 ^ 31 \<le> int S"
    then show False
    proof
      assume big: "2 ^ 31 \<le> int S"
      let ?r = "int32 (r + int (length (take B inp)))"
      have "?r < int S" using int32_less[of "r + int (length (take B inp))"] big by linarith
      with body have "f B S (drop B inp) ?r (int32 (w + (if B = 0 then 0 else 1)))
          (outp @ take B inp) = Some y" by (simp add: Let_def)
      from IH[OF this] big show False by simp
    next
      assume z: "B = 0 \<and> r < int S \<and> - (2 ^ 31) \<le> r"
      show False
      proof (cases "2 ^ 31 \<le> int S")
        case True
        let ?r = "int32 (r + int (length (take B inp)))"
        have "?r < int S" using int32_less[of "r + int (length (take B inp))"] True by linarith
        with body have "f B S (drop B inp) ?r (int32 (w + (if B = 0 then 0 else 1)))
            (outp @ take B inp) = Some y" by (simp add: Let_def)
        from IH[OF this] True show False by simp
      next
        case False
        with z have "r < 2 ^ 31" by linarith
        with z have "int32 r = r" by (simp add: int32_id)
        with z body have "f 0 S inp r (int32 w) outp = Some y" by (simp add: Let_def)
        from IH[OF this] z show False by simp
      qed
    qed
  qed
qed

lemma copyFile_zero:
  "copyFile 0 input outp = (if input = [] then Inl ArithTrap else Inl Hang)"
proof (cases "input = []")
  case True
  have "int32 0 = 0" by (simp add: int32_def)
  with True show ?thesis
    unfolding copyFile_def by (subst copyLoop.simps) simp
next
  case False
  have "copyLoop 0 (length input) input 0 0 outp = None"
  proof (cases "copyLoop 0 (length input) input 0 0 outp")
    case None
    then show ?thesis .
  next
    case (Some y)
    from copyLoop_stuck_aux[OF this] False show ?thesis by simp
  qed
  then show ?thesis using False by (simp add: copyFile_def)
qed

lemma copyFile_big:
  assumes "2 ^ 31 \<le> length input"
  shows "copyFile B input outp = Inl Hang"
proof -
  have big: "2 ^ 31 \<le> int (length input)" using assms by (metis of_nat_le_iff of_nat_numeral of_nat_power)
  have "copyLoop B (length input) input 0 0 outp = None"
  proof (cases "copyLoop B (length input) input 0 0 outp")
    case None
    then show ?thesis .
  next
    case (Some y)
    from copyLoop_stuck_aux[OF this] big show ?thesis by simp
  qed
  then show ?thesis by (simp add: copyFile_def)
qed

lemma copyFile_append:
  "copyFile B input outp = (case copyFile B input [] of Inl f \<Rightarrow> Inl f | Inr t \<Rightarrow> Inr (outp @ t))"
proof (cases "B = 0")
  case True
  then show ?thesis by (simp add: copyFile_zero)
next
  case False
  show ?thesis
  proof (cases "length input < 2 ^ 31")
    case True
    with False show ?thesis by (simp add: copyFile_char)
  next
    case False
    then have "2 ^ 31 \<le> length input" by simp
    then show ?thesis by (simp add: copyFile_big)
  qed
qed

text \<open>
  C3. The claim: a sidecar of every size is copied into the head byte for byte. A
  sidecar whose size is the block size (4096 bytes here) is not: the final
  \<^verbatim>\<open>fwrite\<close> writes \<^verbatim>\<open>bytesRead % st_blksize\<close> bytes, that is none, and the
  assertion \<^verbatim>\<open>bytesRead == written\<close> aborts the run.
\<close>

theorem sidecar_of_one_block_aborts:
  "files block_env ''./index.txt'' = Some (replicate 4096 (CHR ''a''))
   \<and> st_blksize block_env = 4096
   \<and> includeTxtFile block_env ''./index'' g_HeadOpenTag = Inl AssertFail"
  by (simp add: block_env_def site_env_def includeTxtFile_def copyFile_char)

text \<open>
  For a positive block size the sidecar is copied into the head byte for byte exactly
  when it is shorter than \<open>2\<^sup>3\<^sup>1\<close> bytes and is empty or of a size that is not a
  multiple of the block size. For a size that is such a multiple the assertion at the
  end of \<^verbatim>\<open>copyFile\<close> fails, and from \<open>2\<^sup>3\<^sup>1\<close> bytes on the loop does not end.
\<close>

theorem sidecar_copied_unless_whole_blocks:
  assumes "0 < st_blksize e" and "files e (stem @ ''.txt'') = Some txt"
  shows "includeTxtFile e stem outp =
     (if 2 ^ 31 \<le> length txt then Inl Hang
      else if txt \<noteq> [] \<and> length txt mod st_blksize e = 0 then Inl AssertFail
      else Inr (outp @ txt))"
proof (cases "2 ^ 31 \<le> length txt")
  case True
  with assms show ?thesis by (simp add: includeTxtFile_def copyFile_big)
next
  case False
  then have "length txt < 2 ^ 31" by simp
  with False assms show ?thesis by (simp add: includeTxtFile_def copyFile_char)
qed

theorem sidecar_copied_unless_whole_blocks_witness:
  "includeTxtFile site_env ''./index'' ''<head>\<newline>''
     = Inr (''<head>\<newline><meta charset=\"utf-8\">\<newline>'')"
proof -
  have b: "0 < st_blksize site_env" by (simp add: site_env_def)
  have f: "files site_env (''./index'' @ ''.txt'') = Some ''<meta charset=\"utf-8\">\<newline>''"
    by (simp add: site_env_def)
  from sidecar_copied_unless_whole_blocks[OF b f, of "''<head>\<newline>''"]
  show ?thesis by (simp add: site_env_def)
qed

subsection \<open>The search for a stylesheet\<close>

text \<open>
  \<^verbatim>\<open>searchDir\<close> after \<open>k\<close> rounds names the directory \<open>k\<close> levels above the working
  directory.
\<close>

lemma split_path_acc: "split_path acc s = (acc @ hd (split_path [] s)) # tl (split_path [] s)"
proof (induction s arbitrary: acc)
  case Nil
  then show ?case by simp
next
  case (Cons c s)
  show ?case
  proof (cases "c = CHR ''/''")
    case True
    then show ?thesis by simp
  next
    case False
    then show ?thesis using Cons[of "acc @ [c]"] Cons[of "[c]"] by simp
  qed
qed

lemma split_path_ups: "split_path [] (concat (replicate k ''../'')) = replicate k ''..'' @ [[]]"
  by (induction k) simp_all

lemma split_path_up: "split_path [] (up k) = ''.'' # replicate k ''..'' @ [[]]"
  by (simp add: up_def split_path_ups)

lemma walk_ups: "walk d (replicate k ''..'' @ [[]]) = take (length d - k) d"
proof (induction k arbitrary: d)
  case 0
  then show ?case by simp
next
  case (Suc k)
  have "take (length (butlast d) - k) (butlast d) = take (length d - Suc k) d"
    by (simp add: butlast_conv_take min_def)
  then show ?case using Suc[of "butlast d"] by simp
qed

lemma resolve_up: "resolve e (up k) = take (length (cwd e) - k) (cwd e)"
  by (simp add: resolve_def split_path_up walk_ups)

lemma concat_replicate_snoc: "concat (replicate k x) @ x = x @ concat (replicate k x)"
  by (induction k) simp_all

lemma up_Suc: "up k @ ''../'' = up (Suc k)"
  using concat_replicate_snoc[of k "''../''"] by (simp add: up_def)

lemma length_up: "length (up k) = 2 + 3 * k"
  by (induction k) (simp_all add: up_def)

lemma abs_path_slash: "\<forall>c\<in>set d. c \<noteq> [] \<Longrightarrow> abs_path d = ''/'' \<longleftrightarrow> d = []"
  by (cases d) (auto simp: abs_path_def)

lemma abs_path_append:
  "root \<noteq> [] \<Longrightarrow> abs_path (root @ rest) = abs_path root \<longleftrightarrow> rest = []"
  by (cases rest) (auto simp: abs_path_def)

lemma findCssLoop_found:
  assumes "dirs e (take (length (cwd e) - j) (cwd e)) = Some es"
    and "List.find (\<lambda>n. strstr n ''.css'') es = Some name"
    and "2 + 3 * j + length name \<le> SEARCH_DIR_SIZE"
  shows "findCssLoop e root (up j) = Inr (Some (up j @ name))"
  apply (subst findCssLoop.simps)
  using assms apply (simp add: opendir_def resolve_up length_up)
  done

lemma findCssLoop_boundary:
  assumes "dirs e (take (length (cwd e) - j) (cwd e)) = Some es"
    and "List.find (\<lambda>n. strstr n ''.css'') es = None"
    and "abs_path (take (length (cwd e) - j) (cwd e)) = root"
    and "root \<noteq> ''/''"
    and "3 * j + 5 \<le> SEARCH_DIR_SIZE"
  shows "findCssLoop e root (up j) = Inr None"
  apply (subst findCssLoop.simps)
  using assms apply (simp add: opendir_def canonicalize_file_name_def resolve_up length_up)
  done

lemma findCssLoop_step:
  assumes "dirs e (take (length (cwd e) - j) (cwd e)) = Some es"
    and "List.find (\<lambda>n. strstr n ''.css'') es = None"
    and "abs_path (take (length (cwd e) - j) (cwd e)) \<noteq> root"
    and "abs_path (take (length (cwd e) - j) (cwd e)) \<noteq> ''/''"
    and "3 * j + 5 \<le> SEARCH_DIR_SIZE"
  shows "findCssLoop e root (up j) = findCssLoop e root (up (Suc j))"
  apply (subst findCssLoop.simps)
  using assms apply (simp add: opendir_def canonicalize_file_name_def resolve_up length_up up_Suc)
  done

lemma findCssLoop_climb:
  assumes cwd: "cwd e = root @ below" and root: "root \<noteq> []"
    and comps: "\<forall>c\<in>set (cwd e). c \<noteq> []"
    and k: "k \<le> length below" and fits: "3 * k + 2 \<le> SEARCH_DIR_SIZE"
    and none: "\<forall>i<k. \<exists>es. dirs e (take (length (cwd e) - i) (cwd e)) = Some es
                 \<and> List.find (\<lambda>n. strstr n ''.css'') es = None"
  shows "findCssLoop e (abs_path root) (up 0) = findCssLoop e (abs_path root) (up k)"
  using k fits none
proof (induction k)
  case 0
  then show ?case by simp
next
  case (Suc k)
  from Suc.prems have IH: "findCssLoop e (abs_path root) (up 0) = findCssLoop e (abs_path root) (up k)"
    using Suc.IH by simp
  from Suc.prems obtain es where es: "dirs e (take (length (cwd e) - k) (cwd e)) = Some es"
    "List.find (\<lambda>n. strstr n ''.css'') es = None" by blast
  have lt: "k < length below" using Suc.prems by simp
  then have anc: "take (length (cwd e) - k) (cwd e) = root @ take (length below - k) below"
    using cwd by simp
  have ne: "take (length below - k) below \<noteq> []" using lt by auto
  have a1: "abs_path (take (length (cwd e) - k) (cwd e)) \<noteq> abs_path root"
    unfolding anc using abs_path_append[OF root] ne by blast
  have "\<forall>c\<in>set (take (length (cwd e) - k) (cwd e)). c \<noteq> []"
    using comps by (meson in_set_takeD)
  then have a2: "abs_path (take (length (cwd e) - k) (cwd e)) \<noteq> ''/''"
    using abs_path_slash anc root by (metis append_is_Nil_conv)
  have "3 * k + 5 \<le> SEARCH_DIR_SIZE" using Suc.prems by simp
  from findCssLoop_step[OF es a1 a2 this] IH show ?case by simp
qed

lemma findCssLoop_local:
  assumes cwd: "cwd e = root @ below" and same: "cwd e' = cwd e"
    and agree: "\<forall>j\<le>length below. dirs e' (take (length (cwd e) - j) (cwd e))
                  = dirs e (take (length (cwd e) - j) (cwd e))"
    and j: "j \<le> length below"
  shows "findCssLoop e' (abs_path root) (up j) = findCssLoop e (abs_path root) (up j)"
  using j
proof (induction "length below - j" arbitrary: j)
  case 0
  then have jm: "j = length below" by simp
  then have anc: "take (length (cwd e) - j) (cwd e) = root" using cwd by simp
  have "dirs e' root = dirs e root" using agree jm anc by auto
  then show ?case
    unfolding jm using anc same jm
    by (simp add: findCssLoop.simps[of e' "abs_path root" "up (length below)"]
        findCssLoop.simps[of e "abs_path root" "up (length below)"]
        opendir_def canonicalize_file_name_def resolve_up split: option.split)
next
  case (Suc d)
  then have lt: "j < length below" by simp
  have IH: "findCssLoop e' (abs_path root) (up (Suc j)) = findCssLoop e (abs_path root) (up (Suc j))"
    using Suc by simp
  have "dirs e' (take (length (cwd e) - j) (cwd e)) = dirs e (take (length (cwd e) - j) (cwd e))"
    using agree lt by simp
  then show ?case
    using same IH
    by (simp add: findCssLoop.simps[of e' "abs_path root" "up j"]
        findCssLoop.simps[of e "abs_path root" "up j"]
        opendir_def canonicalize_file_name_def resolve_up up_Suc split: option.split)
qed

lemma find_filter_single:
  "filter P xs = [x] \<Longrightarrow> List.find P xs = Some x"
proof (induction xs)
  case Nil
  then show ?case by simp
next
  case (Cons a xs)
  then show ?case by (cases "P a") (auto simp: filter_empty_conv find_None_iff[symmetric] split: if_splits)
qed

lemma findCssLoop_overflow:
  assumes "dirs e (take (length (cwd e) - j) (cwd e)) = Some es"
    and "List.find (\<lambda>n. strstr n ''.css'') es = None"
    and "abs_path (take (length (cwd e) - j) (cwd e)) \<noteq> ''/''"
    and "SEARCH_DIR_SIZE < 3 * j + 5"
  shows "findCssLoop e root (up j) = Inl BufferOverflow"
  apply (subst findCssLoop.simps)
  using assms apply (simp add: opendir_def canonicalize_file_name_def resolve_up length_up)
  done

lemma deep_env_overflow: "findCssFile deep_env ''/r'' = Inl BufferOverflow"
proof -
  have cwd: "cwd deep_env = [''r''] @ replicate 84 ''d''" by (simp add: deep_env_def)
  have comps: "\<forall>c\<in>set (cwd deep_env). c \<noteq> []" by (simp add: deep_env_def)
  have none: "\<forall>i<84. \<exists>es. dirs deep_env (take (length (cwd deep_env) - i) (cwd deep_env)) = Some es
                 \<and> List.find (\<lambda>n. strstr n ''.css'') es = None"
    by (simp add: deep_env_def)
  have r: "abs_path [''r''] = ''/r''" by (simp add: abs_path_def)
  have "findCssLoop deep_env (abs_path [''r'']) (up 0) = findCssLoop deep_env (abs_path [''r'']) (up 84)"
    by (rule findCssLoop_climb[OF cwd _ comps _ _ none]) (simp_all add: SEARCH_DIR_SIZE_def)
  also have "\<dots> = Inl BufferOverflow"
    by (rule findCssLoop_overflow[where es = "[''.'', ''..'']"])
       (simp_all add: deep_env_def SEARCH_DIR_SIZE_def abs_path_def)
  finally show ?thesis by (simp add: findCssFile_def up_def r)
qed


text \<open>
  C2, as stated: for every start directory at or below the boundary root the search
  returns a stylesheet path or reports "not found" at the boundary. It fails when the
  boundary is \<^verbatim>\<open>/\<close>: the test for \<^verbatim>\<open>/\<close> comes first and the run ends with "Invoked
  outside of html root hierarchy" (exit -6). It fails as well 84 levels below the
  boundary, where \<^verbatim>\<open>searchDir\<close> would need 257 characters.
\<close>

theorem css_search_counterexample:
  "findCssFile bare_env ''/''
     = Inl (Exit EXIT_INVOKED_OUTSIDE_HTML_ROOT ''Invoked outside of html root hierarchy.\<newline>'')
   \<and> findCssFile deep_env ''/r'' = Inl BufferOverflow"
proof -
  have "findCssFile bare_env ''/''
     = Inl (Exit EXIT_INVOKED_OUTSIDE_HTML_ROOT ''Invoked outside of html root hierarchy.\<newline>'')"
    by code_simp
  then show ?thesis using deep_env_overflow by simp
qed

text \<open>
  C2, amended. The working directory is \<open>root @ below\<close>, at or below the boundary
  \<open>root\<close>, which is not \<^verbatim>\<open>/\<close> and is passed as its canonical path; every directory
  from the start up to the boundary can be opened; the start is at most 83 levels
  below the boundary and every entry name that contains \<^verbatim>\<open>.css\<close> fits the buffer
  behind the prefix of its level. Then the search ends in one of two ways: it returns
  \<^verbatim>\<open>./\<close>, \<open>j\<close> times \<^verbatim>\<open>../\<close> and the first entry containing \<^verbatim>\<open>.css\<close> of the
  directory \<open>j\<close> levels up, for some \<open>j\<close> not above the boundary; or no directory
  from the start to the boundary has such an entry, the search returns \<^verbatim>\<open>NULL\<close> at
  the boundary and \<^verbatim>\<open>includeCSSFile\<close> ends the run with "No css file found" (exit
  -4). The search never looks above the boundary: its result is the same in every
  file system that lists the same entries for the directories from the start to the
  boundary.
\<close>

theorem css_search_stops_at_boundary:
  assumes cwd: "cwd e = root @ below" and root: "root \<noteq> []"
    and comps: "\<forall>c\<in>set (cwd e). c \<noteq> []"
    and readable: "\<forall>j\<le>length below. dirs e (take (length (cwd e) - j) (cwd e)) \<noteq> None"
    and fits: "3 * length below + 5 \<le> SEARCH_DIR_SIZE"
    and names: "\<forall>j\<le>length below. \<forall>es. dirs e (take (length (cwd e) - j) (cwd e)) = Some es
        \<longrightarrow> (\<forall>n\<in>set es. strstr n ''.css'' \<longrightarrow> 2 + 3 * j + length n \<le> SEARCH_DIR_SIZE)"
  shows "((\<exists>j\<le>length below. \<exists>es name.
             dirs e (take (length (cwd e) - j) (cwd e)) = Some es
             \<and> List.find (\<lambda>n. strstr n ''.css'') es = Some name
             \<and> findCssFile e (abs_path root)
                 = Inr (Some (''./'' @ concat (replicate j ''../'') @ name)))
          \<or> ((\<forall>j\<le>length below. \<forall>es. dirs e (take (length (cwd e) - j) (cwd e)) = Some es
                  \<longrightarrow> (\<forall>n\<in>set es. \<not> strstr n ''.css''))
              \<and> findCssFile e (abs_path root) = Inr None
              \<and> includeCSSFile e (abs_path root) outp
                  = Inl (Exit EXIT_NO_CSS_FILE
                           (''No css file found under '' @ abs_path root @ ''\<newline>''))))
         \<and> (\<forall>e'. cwd e' = cwd e
                \<and> (\<forall>j\<le>length below. dirs e' (take (length (cwd e) - j) (cwd e))
                                       = dirs e (take (length (cwd e) - j) (cwd e)))
              \<longrightarrow> findCssFile e' (abs_path root) = findCssFile e (abs_path root))"
proof
  let ?anc = "\<lambda>j. take (length (cwd e) - j) (cwd e)"
  let ?css = "\<lambda>n. strstr n ''.css''"
  let ?P = "\<lambda>j. j \<le> length below \<and> (\<exists>es. dirs e (?anc j) = Some es \<and> List.find ?css es \<noteq> None)"
  show "(\<exists>j\<le>length below. \<exists>es name.
             dirs e (?anc j) = Some es
             \<and> List.find ?css es = Some name
             \<and> findCssFile e (abs_path root)
                 = Inr (Some (''./'' @ concat (replicate j ''../'') @ name)))
          \<or> ((\<forall>j\<le>length below. \<forall>es. dirs e (?anc j) = Some es
                  \<longrightarrow> (\<forall>n\<in>set es. \<not> strstr n ''.css''))
              \<and> findCssFile e (abs_path root) = Inr None
              \<and> includeCSSFile e (abs_path root) outp
                  = Inl (Exit EXIT_NO_CSS_FILE
                           (''No css file found under '' @ abs_path root @ ''\<newline>'')))"
  proof (cases "\<exists>j. ?P j")
    case True
    then obtain j where Pj: "?P j" and least: "\<forall>i<j. \<not> ?P i"
      using exists_least_iff[of ?P] by blast
    from Pj obtain es name where j: "j \<le> length below"
      and es: "dirs e (?anc j) = Some es" and name: "List.find ?css es = Some name" by auto
    have none: "\<forall>i<j. \<exists>es. dirs e (?anc i) = Some es \<and> List.find ?css es = None"
    proof (intro allI impI)
      fix i assume "i < j"
      then have i: "i \<le> length below" and "\<not> ?P i" using j least by auto
      moreover from readable i obtain es' where "dirs e (?anc i) = Some es'" by auto
      ultimately show "\<exists>es. dirs e (?anc i) = Some es \<and> List.find ?css es = None" by auto
    qed
    from name have "name \<in> set es" "strstr name ''.css''"
      by (auto simp: find_Some_iff)
    with names j es have nfits: "2 + 3 * j + length name \<le> SEARCH_DIR_SIZE" by blast
    have "3 * j + 2 \<le> SEARCH_DIR_SIZE" using fits j by simp
    from findCssLoop_climb[OF cwd root comps j this none]
      findCssLoop_found[OF es name nfits]
    have "findCssFile e (abs_path root) = Inr (Some (up j @ name))"
      by (simp add: findCssFile_def up_def)
    then show ?thesis using j es name unfolding up_def by auto
  next
    case False
    have none: "\<forall>i\<le>length below. \<exists>es. dirs e (?anc i) = Some es \<and> List.find ?css es = None"
    proof (intro allI impI)
      fix i assume i: "i \<le> length below"
      with readable obtain es' where "dirs e (?anc i) = Some es'" by auto
      with False i show "\<exists>es. dirs e (?anc i) = Some es \<and> List.find ?css es = None" by auto
    qed
    then obtain es where es: "dirs e (?anc (length below)) = Some es"
      "List.find ?css es = None" by blast
    have anc: "?anc (length below) = root" using cwd by simp
    have "\<forall>c\<in>set root. c \<noteq> []" using comps cwd by simp
    then have nr: "abs_path root \<noteq> ''/''" using abs_path_slash root by blast
    have "3 * length below + 2 \<le> SEARCH_DIR_SIZE" using fits by simp
    from findCssLoop_climb[OF cwd root comps le_refl this] none
    have "findCssLoop e (abs_path root) (up 0) = findCssLoop e (abs_path root) (up (length below))"
      by simp
    also have "\<dots> = Inr None"
      using findCssLoop_boundary[OF es _ nr fits] anc by simp
    finally have r: "findCssFile e (abs_path root) = Inr None"
      by (simp add: findCssFile_def up_def)
    have "\<forall>j\<le>length below. \<forall>es. dirs e (?anc j) = Some es \<longrightarrow> (\<forall>n\<in>set es. \<not> strstr n ''.css'')"
      using none by (auto simp: find_None_iff)
    then show ?thesis using r by (simp add: includeCSSFile_def)
  qed
next
  show "\<forall>e'. cwd e' = cwd e
                \<and> (\<forall>j\<le>length below. dirs e' (take (length (cwd e) - j) (cwd e))
                                       = dirs e (take (length (cwd e) - j) (cwd e)))
              \<longrightarrow> findCssFile e' (abs_path root) = findCssFile e (abs_path root)"
  proof (intro allI impI)
    fix e' :: env assume a: "cwd e' = cwd e
                \<and> (\<forall>j\<le>length below. dirs e' (take (length (cwd e) - j) (cwd e))
                                       = dirs e (take (length (cwd e) - j) (cwd e)))"
    have "findCssLoop e' (abs_path root) (up 0) = findCssLoop e (abs_path root) (up 0)"
      by (rule findCssLoop_local[OF cwd]) (use a in simp_all)
    then show "findCssFile e' (abs_path root) = findCssFile e (abs_path root)"
      by (simp add: findCssFile_def up_def)
  qed
qed


theorem css_search_stops_at_boundary_witness:
  "cwd site_env = [''srv'', ''site_html''] @ [''docs'']
   \<and> findCssFile site_env (abs_path [''srv'', ''site_html'']) = Inr (Some ''./../style.css'')"
proof -
  let ?anc = "\<lambda>j. take (length (cwd site_env) - j) (cwd site_env)"
  let ?R = "abs_path [''srv'', ''site_html'']"
  let ?A = "\<exists>j\<le>length [''docs'']. \<exists>es name.
             dirs site_env (?anc j) = Some es
             \<and> List.find (\<lambda>n. strstr n ''.css'') es = Some name
             \<and> findCssFile site_env ?R = Inr (Some (''./'' @ concat (replicate j ''../'') @ name))"
  let ?N = "\<forall>j\<le>length [''docs'']. \<forall>es. dirs site_env (?anc j) = Some es
                  \<longrightarrow> (\<forall>n\<in>set es. \<not> strstr n ''.css'')"
  let ?B = "?N \<and> findCssFile site_env ?R = Inr None
              \<and> includeCSSFile site_env ?R []
                  = Inl (Exit EXIT_NO_CSS_FILE (''No css file found under '' @ ?R @ ''\<newline>''))"
  have cwd: "cwd site_env = [''srv'', ''site_html''] @ [''docs'']" by (simp add: site_env_def)
  have root: "[''srv'', ''site_html''] \<noteq> []" by simp
  have comps: "\<forall>c\<in>set (cwd site_env). c \<noteq> []" by (simp add: site_env_def)
  have listing: "dirs site_env (?anc j)
      = Some (if j = 0 then [''.'', ''..'', ''index.md'', ''index.txt'']
              else [''.'', ''..'', ''docs'', ''style.css''])"
    if "j \<le> length [''docs'']" for j
  proof -
    from that consider "j = 0" | "j = Suc 0" by fastforce
    then show ?thesis by cases (simp_all add: site_env_def)
  qed
  have readable: "\<forall>j\<le>length [''docs'']. dirs site_env (?anc j) \<noteq> None"
    using listing by simp
  have fits: "3 * length [''docs''] + 5 \<le> SEARCH_DIR_SIZE" by (simp add: SEARCH_DIR_SIZE_def)
  have names: "\<forall>j\<le>length [''docs'']. \<forall>es. dirs site_env (?anc j) = Some es
        \<longrightarrow> (\<forall>n\<in>set es. strstr n ''.css'' \<longrightarrow> 2 + 3 * j + length n \<le> SEARCH_DIR_SIZE)"
  proof (intro allI impI)
    fix j es assume j: "j \<le> length [''docs'']" and es: "dirs site_env (?anc j) = Some es"
    from listing[OF j] es
    have "es = (if j = 0 then [''.'', ''..'', ''index.md'', ''index.txt'']
              else [''.'', ''..'', ''docs'', ''style.css''])" by simp
    then show "\<forall>n\<in>set es. strstr n ''.css'' \<longrightarrow> 2 + 3 * j + length n \<le> SEARCH_DIR_SIZE"
      using j by (simp add: SEARCH_DIR_SIZE_def)
  qed
  have one: "Suc 0 \<le> length [''docs'']" by simp
  have l1: "dirs site_env (?anc (Suc 0)) = Some [''.'', ''..'', ''docs'', ''style.css'']"
    using listing[OF one] by simp
  have no: "\<not> ?N"
  proof
    assume a: "?N"
    from a[rule_format, OF one l1, of "''style.css''"] show False by simp
  qed
  from css_search_stops_at_boundary[OF cwd root comps readable fits names, of "[]"]
  have "?A \<or> ?B" by (rule conjunct1)
  then have ?A
  proof (rule disjE)
    assume ?B
    then have ?N by (rule conjunct1)
    with no show ?A by (rule notE)
  qed
  then obtain j es name where j: "j \<le> length [''docs'']"
    and es: "dirs site_env (?anc j) = Some es"
    and name: "List.find (\<lambda>n. strstr n ''.css'') es = Some name"
    and r: "findCssFile site_env ?R = Inr (Some (''./'' @ concat (replicate j ''../'') @ name))"
    by (elim exE conjE)
  from listing[OF j] es
  have "es = (if j = 0 then [''.'', ''..'', ''index.md'', ''index.txt'']
              else [''.'', ''..'', ''docs'', ''style.css''])" by simp
  with name j have "j = Suc 0 \<and> name = ''style.css''"
    by (cases "j = 0") auto
  with r cwd show ?thesis by simp
qed


text \<open>
  C4, as stated: with no stylesheet in the start directory and exactly one entry
  matching \<^verbatim>\<open>*.css\<close> in an ancestor strictly between the start and the boundary, the
  result ends with that entry's name. The search takes the first entry whose name
  contains \<^verbatim>\<open>.css\<close> anywhere, here \<^verbatim>\<open>docs.css.bak\<close>.
\<close>

theorem css_found_counterexample:
  "dirs bak_env [''srv'', ''site_html'', ''docs'']
     = Some [''.'', ''..'', ''api'', ''docs.css.bak'', ''docs.css'']
   \<and> filter (name_star ''.css'') [''.'', ''..'', ''api'', ''docs.css.bak'', ''docs.css'']
       = [''docs.css'']
   \<and> findCssFile bak_env ''/srv/site_html'' = Inr (Some ''./../docs.css.bak'')"
  by code_simp


text \<open>
  C4, amended. The ancestor \<open>k\<close> levels up, strictly between the start and the
  boundary (which is not \<^verbatim>\<open>/\<close>), has exactly one entry whose name contains
  \<^verbatim>\<open>.css\<close>; no directory below it on the way has one; the directories on the way
  can be opened and the result fits the buffer. Then the search returns \<^verbatim>\<open>./\<close>,
  exactly \<open>k\<close> times \<^verbatim>\<open>../\<close>, and that name.
\<close>

theorem css_found_in_ancestor:
  assumes cwd: "cwd e = root @ below" and root: "root \<noteq> []"
    and comps: "\<forall>c\<in>set (cwd e). c \<noteq> []"
    and k: "0 < k" "k < length below"
    and none: "\<forall>i<k. \<exists>es. dirs e (take (length (cwd e) - i) (cwd e)) = Some es
                 \<and> (\<forall>n\<in>set es. \<not> strstr n ''.css'')"
    and es: "dirs e (take (length (cwd e) - k) (cwd e)) = Some es"
    and one: "filter (\<lambda>n. strstr n ''.css'') es = [name]"
    and fits: "2 + 3 * k + length name \<le> SEARCH_DIR_SIZE"
  shows "findCssFile e (abs_path root) = Inr (Some (''./'' @ concat (replicate k ''../'') @ name))"
proof -
  have none': "\<forall>i<k. \<exists>es. dirs e (take (length (cwd e) - i) (cwd e)) = Some es
                 \<and> List.find (\<lambda>n. strstr n ''.css'') es = None"
    using none by (simp add: find_None_iff Ball_def)
  have "findCssLoop e (abs_path root) (up 0) = findCssLoop e (abs_path root) (up k)"
    using findCssLoop_climb[OF cwd root comps _ _ none'] k fits by simp
  also have "\<dots> = Inr (Some (up k @ name))"
    using findCssLoop_found[OF es find_filter_single[OF one] fits] .
  finally show ?thesis by (simp add: findCssFile_def up_def)
qed


theorem css_found_in_ancestor_witness:
  "cwd nested_env = [''srv'', ''site_html''] @ [''docs'', ''api'']
   \<and> dirs nested_env [''srv'', ''site_html'', ''docs'']
       = Some [''.'', ''..'', ''api'', ''index.md'', ''docs.css'']
   \<and> findCssFile nested_env ''/srv/site_html'' = Inr (Some ''./../docs.css'')"
proof -
  have cwd: "cwd nested_env = [''srv'', ''site_html''] @ [''docs'', ''api'']"
    by (simp add: nested_env_def)
  have root: "[''srv'', ''site_html''] \<noteq> []" by simp
  have comps: "\<forall>c\<in>set (cwd nested_env). c \<noteq> []" by (simp add: nested_env_def)
  have k: "0 < Suc 0" "Suc 0 < length [''docs'', ''api'']" by simp_all
  have none: "\<forall>i<Suc 0. \<exists>es. dirs nested_env (take (length (cwd nested_env) - i) (cwd nested_env)) = Some es
                 \<and> (\<forall>n\<in>set es. \<not> strstr n ''.css'')"
    by (simp add: nested_env_def)
  have es: "dirs nested_env (take (length (cwd nested_env) - Suc 0) (cwd nested_env))
      = Some [''.'', ''..'', ''api'', ''index.md'', ''docs.css'']"
    by (simp add: nested_env_def)
  have one: "filter (\<lambda>n. strstr n ''.css'') [''.'', ''..'', ''api'', ''index.md'', ''docs.css'']
      = [''docs.css'']" by simp
  have fits: "2 + 3 * Suc 0 + length ''docs.css'' \<le> SEARCH_DIR_SIZE"
    by (simp add: SEARCH_DIR_SIZE_def)
  have r: "abs_path [''srv'', ''site_html''] = ''/srv/site_html''" by (simp add: abs_path_def)
  from css_found_in_ancestor[OF cwd root comps k none es one fits]
  have "findCssFile nested_env ''/srv/site_html'' = Inr (Some ''./../docs.css'')"
    by (simp add: r)
  moreover have "dirs nested_env [''srv'', ''site_html'', ''docs'']
       = Some [''.'', ''..'', ''api'', ''index.md'', ''docs.css'']" by (simp add: nested_env_def)
  ultimately show ?thesis using cwd by simp
qed

subsection \<open>The command line\<close>

lemma seq_Inr: "seq (Inr x) f = f x"
  by (simp add: seq_def)

lemma seq_eq_Inr: "seq m f = Inr y \<longleftrightarrow> (\<exists>x. m = Inr x \<and> f x = Inr y)"
  by (cases m) (simp_all add: seq_def)

lemma strtol16_no_conversion: "snd (strtol16 s) = 0 \<Longrightarrow> fst (strtol16 s) = 0"
  by (auto simp: strtol16_def Let_def split: if_splits)

lemma setFlags_0: "setFlags 0 opts = opts"
  by (simp add: setFlags_def)

lemma scan_cluster_None: "snd (scan_cluster optstring cs None) = False"
  by (induction cs) (auto simp: split_def)

lemma takes_arg_v: "\<not> takes_arg ''v'' c"
  by (simp add: takes_arg_def)

lemma scan_cluster_v: "snd (scan_cluster ''v'' cs nxt) = False"
  by (induction cs) (auto simp: split_def takes_arg_v)

lemma verboseOnly_fields:
  "includeDTD (verboseOnly opts gs) = includeDTD opts"
  "includeTitle (verboseOnly opts gs) = includeTitle opts"
  "includeDatetime (verboseOnly opts gs) = includeDatetime opts"
  "includeAuthor (verboseOnly opts gs) = includeAuthor opts"
  "cssRoot (verboseOnly opts gs) = cssRoot opts"
  "navEmbedCode (verboseOnly opts gs) = navEmbedCode opts"
  by (induction opts gs rule: verboseOnly.induct; simp)+

lemma getopt_all_length:
  "getopt_all optstring argv = (gs, opts, nonopts) \<Longrightarrow> length opts + length nonopts = length argv"
proof (induction optstring argv arbitrary: gs opts nonopts rule: getopt_all.induct)
  case (1 optstring)
  then show ?case by simp
next
  case (2 optstring a rest)
  show ?case
  proof (cases "a = ''--''")
    case True
    with 2 show ?thesis by auto
  next
    case nd: False
    show ?thesis
    proof (cases "option_element a")
      case True
      obtain g used where sc: "scan_cluster optstring (tl a) (case rest of [] \<Rightarrow> None | x # _ \<Rightarrow> Some x) = (g, used)"
        by fastforce
      obtain gs' o' n' where rec: "getopt_all optstring (if used then tl rest else rest) = (gs', o', n')"
        by (metis prod_cases3)
      have ne: "rest \<noteq> []" if used
        using that sc scan_cluster_None[of optstring "tl a"] by (cases rest) auto
      from "2.IH"(1)[OF nd True sc[symmetric] refl rec]
      have "length o' + length n' = length (if used then tl rest else rest)" .
      moreover from "2.prems" nd True sc rec
      have "opts = a # (if used then [hd rest] else []) @ o'" "nonopts = n'" by auto
      ultimately show ?thesis using ne by (cases used) auto
    next
      case False
      obtain gs' o' n' where rec: "getopt_all optstring rest = (gs', o', n')"
        by (metis prod_cases3)
      from "2.IH"(2)[OF nd False rec] have "length o' + length n' = length rest" .
      moreover from "2.prems" nd False rec have "opts = o'" "nonopts = a # n'" by auto
      ultimately show ?thesis by simp
    qed
  qed
qed

lemma first_pass_keeps_order:
  assumes plain: "\<not> option_element md" "md \<noteq> ''--''"
  shows "\<exists>gs o1 n1. getopt_all ''v'' [''-f'', optarg, md] = (gs, o1, n1)
           \<and> o1 @ n1 = [''-f'', optarg, md]"
proof -
  have f: "option_element ''-f''" "''-f'' \<noteq> ''--''" by (simp_all add: option_element_def)
  have used: "snd (scan_cluster ''v'' cs nxt) = False" for cs nxt by (rule scan_cluster_v)
  consider "optarg = ''--''" | "optarg \<noteq> ''--''" "option_element optarg"
    | "optarg \<noteq> ''--''" "\<not> option_element optarg" by blast
  then show ?thesis
  proof cases
    case 1
    then show ?thesis using f by (simp add: split_def used)
  next
    case 2
    then show ?thesis using f plain by (simp add: split_def used)
  next
    case 3
    then show ?thesis using f plain by (simp add: split_def used)
  qed
qed

lemma second_pass_f:
  assumes plain: "\<not> option_element md" "md \<noteq> ''--''"
  shows "getopt_all ''hvf:c:n:'' [''-f'', optarg, md]
     = ([Got (CHR ''f'') optarg (CHR ''f'')], [''-f'', optarg], [md])"
proof -
  have f: "option_element ''-f''" by (simp add: option_element_def)
  show ?thesis using plain f by (simp add: valid_opt_def takes_arg_def)
qed


text \<open>
  Arguments that are no options are left where they are, and the first loop, which
  knows \<^verbatim>\<open>v\<close> only, takes no argument for a value. So it leaves a command line in
  place on which every option argument stands before every other argument.
\<close>

lemma getopt_all_nonoptions:
  "\<forall>p\<in>set ps. \<not> option_element p \<Longrightarrow> getopt_all optstring ps = ([], [], ps)"
proof (induction ps)
  case Nil
  then show ?case by simp
next
  case (Cons a ps)
  then have "\<not> option_element a" by simp
  then have "a \<noteq> ''--''" by (auto simp: option_element_def)
  with Cons show ?case by simp
qed

lemma first_pass_option:
  assumes "option_element a" "a \<noteq> ''--''"
  shows "getopt_all ''v'' (a # rest)
     = (fst (scan_cluster ''v'' (tl a) (case rest of [] \<Rightarrow> None | x # _ \<Rightarrow> Some x))
          @ fst (getopt_all ''v'' rest),
        a # fst (snd (getopt_all ''v'' rest)), snd (snd (getopt_all ''v'' rest)))"
  using assms scan_cluster_v[of "tl a" "case rest of [] \<Rightarrow> None | x # _ \<Rightarrow> Some x"]
  by (simp add: split_def Let_def)

lemma first_pass_options_first:
  assumes "\<forall>a\<in>set os. option_element a \<and> a \<noteq> ''--''"
    and "fst (snd (getopt_all ''v'' rest)) @ snd (snd (getopt_all ''v'' rest)) = rest"
  shows "fst (snd (getopt_all ''v'' (os @ rest))) @ snd (snd (getopt_all ''v'' (os @ rest)))
     = os @ rest"
  using assms by (induction os) (simp_all add: first_pass_option del: getopt_all.simps)

lemma getOptions_in_order:
  assumes "fst (snd (getopt_all ''v'' argv)) @ snd (snd (getopt_all ''v'' argv)) = argv"
    and "getopt_all ''hvf:c:n:'' argv = (gs, opts, positional)"
  shows "getOptions argv
     = seq (handleOptions (verboseOnly g_Options (fst (getopt_all ''v'' argv))) gs) (\<lambda>opts.
         if positional = [] then
           Inl (Exit EXIT_NO_MARKDOWN ''Expecting a markdown file to be specified\<newline>'')
         else if length positional \<noteq> 1 then Inl AssertFail
         else Inr (opts, hd positional, rootFilename (hd positional)))"
proof -
  from getopt_all_length[OF assms(2)] have len: "length opts + length positional = length argv" .
  from arg_cong[OF assms(1), of length]
  have len1: "length (fst (snd (getopt_all ''v'' argv)))
      + length (snd (snd (getopt_all ''v'' argv))) = length argv" by simp
  have c1: "(length opts = length argv) = (positional = [])" using len by auto
  have c2: "(Suc (length opts) \<noteq> length argv) = (length positional \<noteq> Suc 0)"
    using len by auto
  show ?thesis
    unfolding getOptions_def
    by (simp add: split_def assms Let_def len1 c1 c2 del: getopt_all.simps cong: if_cong)
qed

lemma handleOption_accepts:
  "handleOption a g = Inr x \<Longrightarrow> \<exists>y. handleOption b g = Inr y"
  by (cases g) (simp split: if_splits)

lemma handleOptions_accepts:
  "handleOptions a gs = Inr x \<Longrightarrow> \<exists>y. handleOptions b gs = Inr y"
proof (induction gs arbitrary: a b x)
  case Nil
  then show ?case by simp
next
  case (Cons g gs)
  from Cons.prems obtain a' where a': "handleOption a g = Inr a'" "handleOptions a' gs = Inr x"
    by (auto simp: seq_eq_Inr)
  from handleOption_accepts[OF a'(1)] obtain b' where b': "handleOption b g = Inr b'" by blast
  from Cons.IH[OF a'(2)] obtain y where "handleOptions b' gs = Inr y" by blast
  with b' show ?case by (auto simp: seq_eq_Inr)
qed

text \<open>
  What the second loop reads from \<^verbatim>\<open>-v\<close> and from \<^verbatim>\<open>-c\<close> or \<^verbatim>\<open>-n\<close> with the
  value attached, and what the first loop leaves of the options.
\<close>

lemma second_pass_v:
  "getopt_all ''hvf:c:n:'' (''-v'' # rest)
     = (Got (CHR ''v'') [] (CHR ''v'') # fst (getopt_all ''hvf:c:n:'' rest),
        ''-v'' # fst (snd (getopt_all ''hvf:c:n:'' rest)),
        snd (snd (getopt_all ''hvf:c:n:'' rest)))"
  by (simp add: split_def valid_opt_def takes_arg_def Let_def option_element_def)

lemma second_pass_attached:
  assumes "x = CHR ''c'' \<or> x = CHR ''n''" and "val \<noteq> []"
  shows "getopt_all ''hvf:c:n:'' ((CHR ''-'' # x # val) # rest)
     = (Got x val x # fst (getopt_all ''hvf:c:n:'' rest),
        (CHR ''-'' # x # val) # fst (snd (getopt_all ''hvf:c:n:'' rest)),
        snd (snd (getopt_all ''hvf:c:n:'' rest)))"
  using assms
  by (auto simp: split_def valid_opt_def takes_arg_def Let_def option_element_def)

lemma verboseOnly_default:
  "\<exists>b. verboseOnly (g_Options\<lparr>verbose := a\<rparr>) gs = g_Options\<lparr>verbose := b\<rparr>"
proof (induction gs arbitrary: a)
  case Nil
  show ?case by (rule exI[of _ a]) simp
next
  case (Cons g gs)
  obtain c x y where g: "g = Got c x y" by (cases g)
  show ?case using Cons[of True] Cons[of a] unfolding g by (cases "c = CHR ''v''") simp_all
qed



subsection \<open>The page and the flags\<close>

text \<open>
  Every writer appends to the output it is given, and what it appends does not depend
  on that output.
\<close>

lemma includeTxtFile_append:
  "includeTxtFile e r outp
     = (case includeTxtFile e r [] of Inl f \<Rightarrow> Inl f | Inr t \<Rightarrow> Inr (outp @ t))"
  unfolding includeTxtFile_def
  by (cases "files e (r @ ''.txt'')") (simp_all add: copyFile_append[of _ _ outp])

lemma includeCSSFile_append:
  "includeCSSFile e root outp
     = (case includeCSSFile e root [] of Inl f \<Rightarrow> Inl f | Inr t \<Rightarrow> Inr (outp @ t))"
  by (simp add: includeCSSFile_def checked_fwrite_def split: sum.split option.split)

lemma addWebpageBody_append:
  "addWebpageBody e opts md outp
     = (case addWebpageBody e opts md [] of Inl f \<Rightarrow> Inl f | Inr t \<Rightarrow> Inr (outp @ t))"
  by (simp add: addWebpageBody_def seq_def checked_fwrite_def split: sum.split option.split)

lemma setFlags_fields:
  "includeDTD (setFlags fv opts) = (includeDTD opts \<and> \<not> bit fv 0)"
  "includeTitle (setFlags fv opts) = (includeTitle opts \<and> \<not> bit fv 1)"
  "includeDatetime (setFlags fv opts) = (includeDatetime opts \<and> \<not> bit fv 2)"
  "includeAuthor (setFlags fv opts) = (includeAuthor opts \<and> \<not> bit fv 3)"
  "cssRoot (setFlags fv opts) = cssRoot opts"
  "navEmbedCode (setFlags fv opts) = navEmbedCode opts"
  using and_exp_eq_0_iff_not_bit[of fv 0] and_exp_eq_0_iff_not_bit[of fv 1]
    and_exp_eq_0_iff_not_bit[of fv 2] and_exp_eq_0_iff_not_bit[of fv 3]
  by (auto simp: setFlags_def Let_def flag_dtd_def flag_title_def flag_datetime_def
      flag_author_def and.commute)

lemma addWebpageBody_setFlags:
  "addWebpageBody e (setFlags fv opts) md outp = addWebpageBody e opts md outp"
  by (simp add: addWebpageBody_def setFlags_fields cong: option.case_cong)

lemma nonempty_appends:
  "outp \<noteq> [] \<Longrightarrow> includeTxtFile e r outp
     = (case includeTxtFile e r [] of Inl f \<Rightarrow> Inl f | Inr t \<Rightarrow> Inr (outp @ t))"
  "outp \<noteq> [] \<Longrightarrow> includeCSSFile e root outp
     = (case includeCSSFile e root [] of Inl f \<Rightarrow> Inl f | Inr t \<Rightarrow> Inr (outp @ t))"
  "outp \<noteq> [] \<Longrightarrow> addWebpageBody e opts md outp
     = (case addWebpageBody e opts md [] of Inl f \<Rightarrow> Inl f | Inr t \<Rightarrow> Inr (outp @ t))"
  using includeTxtFile_append[of e r outp] includeCSSFile_append[of e root outp]
    addWebpageBody_append[of e opts md outp] by simp_all

lemma head_steps:
  assumes "addWebpageHead e opts stem outp = Inr out6"
  shows "\<exists>t3 t4 t5 t6.
      (if includeAuthor opts then
         seq (getUserName e) (\<lambda>u. Inr (g_CommentOpenTag @ ''Author is '' @ u @ g_CommentCloseTag))
       else Inr []) = Inr t3
    \<and> (if includeDatetime opts then
         if strftime_c e = 0 then Inl AssertFail
         else Inr (g_CommentOpenTag @ ''Datetime is '' @ time_c e @ g_CommentCloseTag)
       else Inr []) = Inr t4
    \<and> (case cssRoot opts of None \<Rightarrow> Inr [] | Some root \<Rightarrow> includeCSSFile e root []) = Inr t5
    \<and> includeTxtFile e stem [] = Inr t6
    \<and> out6 = outp @ g_HeadOpenTag
         @ (if includeTitle opts then g_TitleOpenTag @ stem @ g_TitleCloseTag else [])
         @ t3 @ t4 @ t5 @ t6 @ g_HeadCloseTag"
proof -
  from assms obtain o3 o4 o5 o6 where
    a: "(if includeAuthor opts then
            seq (getUserName e) (\<lambda>username.
              Inr (checked_fwrite g_CommentCloseTag
                    (checked_fwrite username
                      (checked_fwrite ''Author is '' (checked_fwrite g_CommentOpenTag
                        (if includeTitle opts then
                 checked_fwrite g_TitleCloseTag
                   (checked_fwrite stem (checked_fwrite g_TitleOpenTag (checked_fwrite g_HeadOpenTag outp)))
               else checked_fwrite g_HeadOpenTag outp))))))
          else Inr (if includeTitle opts then
                 checked_fwrite g_TitleCloseTag
                   (checked_fwrite stem (checked_fwrite g_TitleOpenTag (checked_fwrite g_HeadOpenTag outp)))
               else checked_fwrite g_HeadOpenTag outp)) = Inr o3"
    and d: "(if includeDatetime opts then
            if strftime_c e = 0 then Inl AssertFail
            else Inr (checked_fwrite g_CommentCloseTag
                       (checked_fwrite (time_c e)
                         (checked_fwrite ''Datetime is '' (checked_fwrite g_CommentOpenTag o3))))
          else Inr o3) = Inr o4"
    and c: "(case cssRoot opts of None \<Rightarrow> Inr o4 | Some root \<Rightarrow> includeCSSFile e root o4) = Inr o5"
    and t: "includeTxtFile e stem o5 = Inr o6"
    and h: "out6 = checked_fwrite g_HeadCloseTag o6"
    unfolding addWebpageHead_def seq_Inr seq_eq_Inr by blast
  let ?o2 = "outp @ g_HeadOpenTag
         @ (if includeTitle opts then g_TitleOpenTag @ stem @ g_TitleCloseTag else [])"
  have o2: "(if includeTitle opts then
                 checked_fwrite g_TitleCloseTag
                   (checked_fwrite stem (checked_fwrite g_TitleOpenTag (checked_fwrite g_HeadOpenTag outp)))
               else checked_fwrite g_HeadOpenTag outp) = ?o2"
    by (simp add: checked_fwrite_def)
  from a obtain t3 where t3: "(if includeAuthor opts then
         seq (getUserName e) (\<lambda>u. Inr (g_CommentOpenTag @ ''Author is '' @ u @ g_CommentCloseTag))
       else Inr []) = Inr t3" "o3 = ?o2 @ t3"
    unfolding o2 by (cases "includeAuthor opts") (auto simp: seq_eq_Inr checked_fwrite_def)
  from d obtain t4 where t4: "(if includeDatetime opts then
         if strftime_c e = 0 then Inl AssertFail
         else Inr (g_CommentOpenTag @ ''Datetime is '' @ time_c e @ g_CommentCloseTag)
       else Inr []) = Inr t4" "o4 = o3 @ t4"
    by (cases "includeDatetime opts"; cases "strftime_c e = 0") (auto simp: checked_fwrite_def)
  from c obtain t5 where t5:
    "(case cssRoot opts of None \<Rightarrow> Inr [] | Some root \<Rightarrow> includeCSSFile e root []) = Inr t5"
    "o5 = o4 @ t5"
  proof (cases "cssRoot opts")
    case None
    with c that show ?thesis by simp
  next
    case (Some root)
    with c have "includeCSSFile e root o4 = Inr o5" by simp
    then obtain t where "includeCSSFile e root [] = Inr t" "o5 = o4 @ t"
      by (subst (asm) includeCSSFile_append) (auto split: sum.splits)
    with Some that show ?thesis by simp
  qed
  from t obtain t6 where t6: "includeTxtFile e stem [] = Inr t6" "o6 = o5 @ t6"
    by (subst (asm) includeTxtFile_append) (auto split: sum.splits)
  show ?thesis
    using t3 t4 t5 t6 h by (intro exI[of _ t3] exI[of _ t4] exI[of _ t5] exI[of _ t6])
      (simp add: checked_fwrite_def)
qed

lemma body_steps:
  assumes "addWebpageBody e opts md outp = Inr out"
  shows "\<exists>t. addWebpageBody e opts md [] = Inr t \<and> out = outp @ t"
  using assms by (subst (asm) addWebpageBody_append) (auto split: sum.splits)


lemma page_by_flags:
  "\<exists>tail. \<forall>fv b fname page.
     makeWebpage e (setFlags fv (g_Options\<lparr>cssRoot := c, navEmbedCode := n, verbose := b\<rparr>))
       md stem
       = Inr (fname, page)
     \<longrightarrow> page = (if bit fv 0 then [] else g_Doctype)
              @ g_PageOpenTag @ g_HeadOpenTag
              @ (if bit fv 1 then [] else g_TitleOpenTag @ stem @ g_TitleCloseTag)
              @ (if bit fv 3 then []
                 else g_CommentOpenTag @ ''Author is ''
                      @ (case pw_name e of None \<Rightarrow> [] | Some u \<Rightarrow> u) @ g_CommentCloseTag)
              @ (if bit fv 2 then []
                 else g_CommentOpenTag @ ''Datetime is '' @ time_c e @ g_CommentCloseTag)
              @ tail"
proof -
  let ?base = "\<lambda>b. g_Options\<lparr>cssRoot := c, navEmbedCode := n, verbose := b\<rparr>"
  define css_t where "css_t = (case c of None \<Rightarrow> []
      | Some root \<Rightarrow> (case includeCSSFile e root [] of Inl f \<Rightarrow> [] | Inr t \<Rightarrow> t))"
  define txt_t where "txt_t = (case includeTxtFile e stem [] of Inl f \<Rightarrow> [] | Inr t \<Rightarrow> t)"
  define body_t where
    "body_t = (case addWebpageBody e (?base False) md [] of Inl f \<Rightarrow> [] | Inr t \<Rightarrow> t)"
  define tail where "tail = css_t @ txt_t @ g_HeadCloseTag @ body_t @ g_PageCloseTag"
  show ?thesis
  proof (intro exI[of _ tail] allI impI)
    fix fv b fname page
    let ?opts = "setFlags fv (?base b)"
    assume mk: "makeWebpage e ?opts md stem = Inr (fname, page)"
    have inc: "includeDTD ?opts = (\<not> bit fv 0)" "includeTitle ?opts = (\<not> bit fv 1)"
      "includeDatetime ?opts = (\<not> bit fv 2)" "includeAuthor ?opts = (\<not> bit fv 3)"
      "cssRoot ?opts = c"
      by (simp_all add: setFlags_fields g_Options_def)
    have body: "addWebpageBody e ?opts md [] = addWebpageBody e (?base False) md []"
      by (simp add: addWebpageBody_def setFlags_fields cong: option.case_cong)
    from mk obtain o1 o2 where
      h: "addWebpageHead e ?opts stem
            (checked_fwrite g_PageOpenTag
              (if includeDTD ?opts then checked_fwrite g_Doctype [] else [])) = Inr o1"
      and b: "addWebpageBody e ?opts md o1 = Inr o2"
      and p: "page = checked_fwrite g_PageCloseTag o2"
      by (auto simp: makeWebpage_def makeWebpageFile_def seq_Inr seq_eq_Inr)
    from head_steps[OF h] obtain t3 t4 t5 t6 where
      t3: "(if includeAuthor ?opts then
         seq (getUserName e) (\<lambda>u. Inr (g_CommentOpenTag @ ''Author is '' @ u @ g_CommentCloseTag))
       else Inr []) = Inr t3"
      and t4: "(if includeDatetime ?opts then
         if strftime_c e = 0 then Inl AssertFail
         else Inr (g_CommentOpenTag @ ''Datetime is '' @ time_c e @ g_CommentCloseTag)
       else Inr []) = Inr t4"
      and t5: "(case cssRoot ?opts of None \<Rightarrow> Inr [] | Some root \<Rightarrow> includeCSSFile e root [])
          = Inr t5"
      and t6: "includeTxtFile e stem [] = Inr t6"
      and o1: "o1 = checked_fwrite g_PageOpenTag
              (if includeDTD ?opts then checked_fwrite g_Doctype [] else []) @ g_HeadOpenTag
         @ (if includeTitle ?opts then g_TitleOpenTag @ stem @ g_TitleCloseTag else [])
         @ t3 @ t4 @ t5 @ t6 @ g_HeadCloseTag"
      by blast
    from body_steps[OF b] obtain t where t: "addWebpageBody e ?opts md [] = Inr t"
      and o2: "o2 = o1 @ t" by blast
    have a3: "t3 = (if bit fv 3 then []
                 else g_CommentOpenTag @ ''Author is ''
                      @ (case pw_name e of None \<Rightarrow> [] | Some u \<Rightarrow> u) @ g_CommentCloseTag)"
      using t3 unfolding inc
      by (cases "bit fv 3") (auto simp: seq_eq_Inr getUserName_def split: option.splits)
    have a4: "t4 = (if bit fv 2 then []
                 else g_CommentOpenTag @ ''Datetime is '' @ time_c e @ g_CommentCloseTag)"
      using t4 unfolding inc
      by (cases "bit fv 2"; cases "strftime_c e = 0") auto
    have a5: "t5 = css_t" using t5 unfolding inc css_t_def by (auto split: option.splits)
    have a6: "t6 = txt_t" using t6 unfolding txt_t_def by simp
    have a7: "t = body_t" using t unfolding body_t_def body by simp
    show "page = (if bit fv 0 then [] else g_Doctype)
              @ g_PageOpenTag @ g_HeadOpenTag
              @ (if bit fv 1 then [] else g_TitleOpenTag @ stem @ g_TitleCloseTag)
              @ (if bit fv 3 then []
                 else g_CommentOpenTag @ ''Author is ''
                      @ (case pw_name e of None \<Rightarrow> [] | Some u \<Rightarrow> u) @ g_CommentCloseTag)
              @ (if bit fv 2 then []
                 else g_CommentOpenTag @ ''Datetime is '' @ time_c e @ g_CommentCloseTag)
              @ tail"
      unfolding p o2 o1 inc a3 a4 a5 a6 a7 tail_def
      by (simp add: checked_fwrite_def)
  qed
qed

lemma flags_command_line:
  assumes plain: "\<not> option_element md" "md \<noteq> ''--''"
    and c: "c \<noteq> Some []" and n: "n \<noteq> Some []"
    and run: "getOptions ((if v then [''-v''] else [])
                @ (case c of None \<Rightarrow> [] | Some r \<Rightarrow> [''-c'' @ r])
                @ (case n of None \<Rightarrow> [] | Some t \<Rightarrow> [''-n'' @ t])
                @ [''-f'', fv_text, md]) = Inr (opts, m, stem)"
  shows "\<exists>b. opts = setFlags (fst (strtol16 fv_text))
                    (g_Options\<lparr>cssRoot := c, navEmbedCode := n, verbose := b\<rparr>)
           \<and> m = md \<and> stem = rootFilename md"
proof -
  let ?pre = "(if v then [''-v''] else [])
                @ (case c of None \<Rightarrow> [] | Some r \<Rightarrow> [''-c'' @ r])
                @ (case n of None \<Rightarrow> [] | Some t \<Rightarrow> [''-n'' @ t])"
  let ?argv = "(if v then [''-v''] else [])
                @ (case c of None \<Rightarrow> [] | Some r \<Rightarrow> [''-c'' @ r])
                @ (case n of None \<Rightarrow> [] | Some t \<Rightarrow> [''-n'' @ t])
                @ [''-f'', fv_text, md]"
  let ?gs = "(if v then [Got (CHR ''v'') [] (CHR ''v'')] else [])
                @ (case c of None \<Rightarrow> [] | Some r \<Rightarrow> [Got (CHR ''c'') r (CHR ''c'')])
                @ (case n of None \<Rightarrow> [] | Some t \<Rightarrow> [Got (CHR ''n'') t (CHR ''n'')])
                @ [Got (CHR ''f'') fv_text (CHR ''f'')]"
  have argv: "?pre @ [''-f'', fv_text, md] = ?argv" by simp
  have pre: "\<forall>a\<in>set ?pre. option_element a \<and> a \<noteq> ''--''"
    using c n by (auto simp: option_element_def split: option.splits)
  from first_pass_keeps_order[OF plain, of fv_text] obtain g1 o1 n1 where
    "getopt_all ''v'' [''-f'', fv_text, md] = (g1, o1, n1)" "o1 @ n1 = [''-f'', fv_text, md]"
    by blast
  then have "fst (snd (getopt_all ''v'' [''-f'', fv_text, md]))
      @ snd (snd (getopt_all ''v'' [''-f'', fv_text, md])) = [''-f'', fv_text, md]"
    by (simp del: getopt_all.simps)
  from first_pass_options_first[OF pre this]
  have ord: "fst (snd (getopt_all ''v'' ?argv)) @ snd (snd (getopt_all ''v'' ?argv)) = ?argv"
    unfolding argv .
  have parse: "getopt_all ''hvf:c:n:'' ?argv = (?gs, ?pre @ [''-f'', fv_text], [md])"
    using c n second_pass_f[OF plain, of fv_text]
    by (cases v; cases c; cases n)
       (simp_all add: second_pass_v second_pass_attached del: getopt_all.simps)
  from verboseOnly_default[of "verbose g_Options" "fst (getopt_all ''v'' ?argv)"]
  obtain b where b: "verboseOnly g_Options (fst (getopt_all ''v'' ?argv))
      = g_Options\<lparr>verbose := b\<rparr>" by auto
  from run have run': "seq (handleOptions (g_Options\<lparr>verbose := b\<rparr>) ?gs)
      (\<lambda>opts. Inr (opts, md, rootFilename md)) = Inr (opts, m, stem)"
    unfolding getOptions_in_order[OF ord parse] b by simp
  then obtain o' where h: "handleOptions (g_Options\<lparr>verbose := b\<rparr>) ?gs = Inr o'"
    and r: "opts = o'" "m = md" "stem = rootFilename md"
    by (auto simp: seq_eq_Inr)
  have "o' = setFlags (fst (strtol16 fv_text))
                    (g_Options\<lparr>cssRoot := c, navEmbedCode := n, verbose := b\<rparr>)"
    using h
    by (cases v; cases c; cases n)
       (auto simp: seq_eq_Inr seq_Inr g_Options_def split: if_splits)
  with r show ?thesis by blast
qed

text \<open>
  C5. The assembler is run with \<^verbatim>\<open>-f\<close> and a flags text before the file name,
  after any of \<^verbatim>\<open>-v\<close>, \<^verbatim>\<open>-c\<close> and \<^verbatim>\<open>-n\<close> (these two with the value attached).
  For every flags text, with \<open>fv\<close> the number \<^verbatim>\<open>strtol\<close> reads from it, the page
  that is written is: the DOCTYPE line unless bit 0 (0x01) of \<open>fv\<close> is set, the opening
  tags, the title element unless bit 1 (0x02) is set, the author comment unless bit 3
  (0x08) is set, the datetime comment unless bit 2 (0x04) is set, and then a text
  \<open>tail\<close> that is the same for every flags text. So each bit omits its own item,
  nothing else changes, and the bits act independently of each other.
\<close>

theorem flag_bits_omit_their_items:
  assumes plain: "\<not> option_element md" "md \<noteq> ''--''"
    and c: "c \<noteq> Some []" and n: "n \<noteq> Some []"
  shows "\<exists>tail. \<forall>fv_text fname page.
     webpage_main e ((if v then [''-v''] else [])
                @ (case c of None \<Rightarrow> [] | Some r \<Rightarrow> [''-c'' @ r])
                @ (case n of None \<Rightarrow> [] | Some t \<Rightarrow> [''-n'' @ t])
                @ [''-f'', fv_text, md])
       = Inr (fname, page)
     \<longrightarrow> page = (if bit (fst (strtol16 fv_text)) 0 then [] else g_Doctype)
              @ g_PageOpenTag @ g_HeadOpenTag
              @ (if bit (fst (strtol16 fv_text)) 1 then []
                 else g_TitleOpenTag @ rootFilename md @ g_TitleCloseTag)
              @ (if bit (fst (strtol16 fv_text)) 3 then []
                 else g_CommentOpenTag @ ''Author is ''
                      @ (case pw_name e of None \<Rightarrow> [] | Some u \<Rightarrow> u) @ g_CommentCloseTag)
              @ (if bit (fst (strtol16 fv_text)) 2 then []
                 else g_CommentOpenTag @ ''Datetime is '' @ time_c e @ g_CommentCloseTag)
              @ tail"
proof -
  from page_by_flags[where e = e and c = c and n = n and md = md and stem = "rootFilename md"]
  obtain tail where
    T: "\<And>fv b fname page.
     makeWebpage e (setFlags fv (g_Options\<lparr>cssRoot := c, navEmbedCode := n, verbose := b\<rparr>))
       md (rootFilename md) = Inr (fname, page)
     \<Longrightarrow> page = (if bit fv 0 then [] else g_Doctype)
              @ g_PageOpenTag @ g_HeadOpenTag
              @ (if bit fv 1 then [] else g_TitleOpenTag @ rootFilename md @ g_TitleCloseTag)
              @ (if bit fv 3 then []
                 else g_CommentOpenTag @ ''Author is ''
                      @ (case pw_name e of None \<Rightarrow> [] | Some u \<Rightarrow> u) @ g_CommentCloseTag)
              @ (if bit fv 2 then []
                 else g_CommentOpenTag @ ''Datetime is '' @ time_c e @ g_CommentCloseTag)
              @ tail" by blast
  show ?thesis
  proof (intro exI[of _ tail] allI impI)
    fix fv_text fname page
    let ?argv = "(if v then [''-v''] else [])
                @ (case c of None \<Rightarrow> [] | Some r \<Rightarrow> [''-c'' @ r])
                @ (case n of None \<Rightarrow> [] | Some t \<Rightarrow> [''-n'' @ t])
                @ [''-f'', fv_text, md]"
    assume wm: "webpage_main e ?argv = Inr (fname, page)"
    then obtain opts m stem where g: "getOptions ?argv = Inr (opts, m, stem)"
      and mk: "makeWebpage e opts m stem = Inr (fname, page)"
      unfolding webpage_main_def seq_eq_Inr by auto
    from flags_command_line[OF plain c n g] obtain b where
      "opts = setFlags (fst (strtol16 fv_text))
                    (g_Options\<lparr>cssRoot := c, navEmbedCode := n, verbose := b\<rparr>)"
      "m = md" "stem = rootFilename md" by blast
    with mk show "page = (if bit (fst (strtol16 fv_text)) 0 then [] else g_Doctype)
              @ g_PageOpenTag @ g_HeadOpenTag
              @ (if bit (fst (strtol16 fv_text)) 1 then []
                 else g_TitleOpenTag @ rootFilename md @ g_TitleCloseTag)
              @ (if bit (fst (strtol16 fv_text)) 3 then []
                 else g_CommentOpenTag @ ''Author is ''
                      @ (case pw_name e of None \<Rightarrow> [] | Some u \<Rightarrow> u) @ g_CommentCloseTag)
              @ (if bit (fst (strtol16 fv_text)) 2 then []
                 else g_CommentOpenTag @ ''Datetime is '' @ time_c e @ g_CommentCloseTag)
              @ tail"
      using T by blast
  qed
qed

theorem flag_bits_omit_their_items_witness:
  "\<exists>tail.
     webpage_main site_env [''-f'', ''0x00'', ''./index.md'']
       = Inr (''./index.html'',
              ''<!DOCTYPE html>\<newline><html>\<newline><head>\<newline><title>./index</title>\<newline><!--Author is mark-->\<newline><!--Datetime is Tue Nov  3 07:07:00 2026-->\<newline>'' @ tail)
   \<and> webpage_main site_env [''-f'', ''0x05'', ''./index.md'']
       = Inr (''./index.html'',
              ''<html>\<newline><head>\<newline><title>./index</title>\<newline><!--Author is mark-->\<newline>'' @ tail)"
proof -
  have plain: "\<not> option_element ''./index.md''" "''./index.md'' \<noteq> ''--''"
    by (simp_all add: option_element_def)
  have cn: "(None :: string option) \<noteq> Some []" by simp
  from flag_bits_omit_their_items[OF plain cn cn, where e = site_env and v = False]
  obtain tail where T: "\<And>fv_text fname page.
     webpage_main site_env [''-f'', fv_text, ''./index.md''] = Inr (fname, page)
     \<Longrightarrow> page = (if bit (fst (strtol16 fv_text)) 0 then [] else g_Doctype)
              @ g_PageOpenTag @ g_HeadOpenTag
              @ (if bit (fst (strtol16 fv_text)) 1 then []
                 else g_TitleOpenTag @ rootFilename ''./index.md'' @ g_TitleCloseTag)
              @ (if bit (fst (strtol16 fv_text)) 3 then []
                 else g_CommentOpenTag @ ''Author is ''
                      @ (case pw_name site_env of None \<Rightarrow> [] | Some u \<Rightarrow> u) @ g_CommentCloseTag)
              @ (if bit (fst (strtol16 fv_text)) 2 then []
                 else g_CommentOpenTag @ ''Datetime is '' @ time_c site_env @ g_CommentCloseTag)
              @ tail"
    by auto
  have m0: "webpage_main site_env [''-f'', ''0x00'', ''./index.md'']
      = Inr (''./index.html'', ''<!DOCTYPE html>\<newline><html>\<newline><head>\<newline><title>./index</title>\<newline><!--Author is mark-->\<newline><!--Datetime is Tue Nov  3 07:07:00 2026-->\<newline><meta charset=\"utf-8\">\<newline></head>\<newline><body>\<newline><h1>Hi</h1>\<newline></body>\<newline></html>\<newline>'')"
    by code_simp
  have m5: "webpage_main site_env [''-f'', ''0x05'', ''./index.md'']
      = Inr (''./index.html'', ''<html>\<newline><head>\<newline><title>./index</title>\<newline><!--Author is mark-->\<newline><meta charset=\"utf-8\">\<newline></head>\<newline><body>\<newline><h1>Hi</h1>\<newline></body>\<newline></html>\<newline>'')"
    by code_simp
  have v0: "fst (strtol16 ''0x00'') = 0" by code_simp
  have v5: "fst (strtol16 ''0x05'') = 5" by code_simp
  have stem: "rootFilename ''./index.md'' = ''./index''" by code_simp
  have b0: "\<not> bit (0::int) 0" "\<not> bit (0::int) 1" "\<not> bit (0::int) 2" "\<not> bit (0::int) 3"
    by simp_all
  have b5: "bit (5::int) 0" "\<not> bit (5::int) 1" "bit (5::int) 2" "\<not> bit (5::int) 3"
    by simp_all
  have pw: "pw_name site_env = Some ''mark''" "time_c site_env = ''Tue Nov  3 07:07:00 2026''"
    by (simp_all add: site_env_def)
  have e0: "''<!DOCTYPE html>\<newline><html>\<newline><head>\<newline><title>./index</title>\<newline><!--Author is mark-->\<newline><!--Datetime is Tue Nov  3 07:07:00 2026-->\<newline><meta charset=\"utf-8\">\<newline></head>\<newline><body>\<newline><h1>Hi</h1>\<newline></body>\<newline></html>\<newline>''
     = ''<!DOCTYPE html>\<newline><html>\<newline><head>\<newline><title>./index</title>\<newline><!--Author is mark-->\<newline><!--Datetime is Tue Nov  3 07:07:00 2026-->\<newline>'' @ tail"
    using T[OF m0] unfolding v0 b0 pw stem
    by (simp add: g_Doctype_def g_PageOpenTag_def g_HeadOpenTag_def g_TitleOpenTag_def
        g_TitleCloseTag_def g_CommentOpenTag_def g_CommentCloseTag_def)
  have e5: "''<html>\<newline><head>\<newline><title>./index</title>\<newline><!--Author is mark-->\<newline><meta charset=\"utf-8\">\<newline></head>\<newline><body>\<newline><h1>Hi</h1>\<newline></body>\<newline></html>\<newline>''
     = ''<html>\<newline><head>\<newline><title>./index</title>\<newline><!--Author is mark-->\<newline>'' @ tail"
    using T[OF m5] b5 unfolding v5 pw stem
    by (simp add: g_Doctype_def g_PageOpenTag_def g_HeadOpenTag_def g_TitleOpenTag_def
        g_TitleCloseTag_def g_CommentOpenTag_def g_CommentCloseTag_def)
  show ?thesis
    by (rule exI[of _ tail]) (use m0 m5 e0 e5 in simp)
qed

subsection \<open>The navigation embedding\<close>








text \<open>
  Run by itself with \<^verbatim>\<open>-n\<close>, the embedding and a file name, the assembler does what
  the orchestrated run misses: every page it writes ends its body with the comment
  opener, the text \<^verbatim>\<open> NAVIGATION EMBEDDING GOES HERE \<close> and a newline, the embedding
  itself, unchanged, and the comment closer, directly followed by the closing body
  tag; before it the body holds the rendered markdown.
\<close>

lemma body_ends_with_nav:
  assumes nav: "navEmbedCode opts = Some nav"
    and mk: "makeWebpage e opts md stem = Inr (fname, page)"
  shows "\<exists>head src rendered.
      files e md = Some src \<and> cmark e src = Some rendered
      \<and> page = head @ g_BodyOpenTag @ rendered
               @ g_CommentOpenTag @ '' NAVIGATION EMBEDDING GOES HERE \<newline>'' @ nav
               @ g_CommentCloseTag
               @ g_BodyCloseTag @ g_PageCloseTag"
proof -
  from mk obtain o1 o2 where
    b: "addWebpageBody e opts md o1 = Inr o2"
    and p: "page = checked_fwrite g_PageCloseTag o2"
    by (auto simp: makeWebpage_def makeWebpageFile_def seq_Inr seq_eq_Inr)
  from b obtain src where src: "files e md = Some src"
    by (cases "files e md") (simp_all add: addWebpageBody_def)
  from b src obtain rendered where r: "cmark e src = Some rendered"
    by (cases "cmark e src") (simp_all add: addWebpageBody_def seq_def)
  from b src r nav have "o2 = o1 @ g_BodyOpenTag @ rendered
               @ g_CommentOpenTag @ '' NAVIGATION EMBEDDING GOES HERE \<newline>'' @ nav
               @ g_CommentCloseTag @ g_BodyCloseTag"
    by (simp add: addWebpageBody_def seq_def checked_fwrite_def)
  with p src r show ?thesis by (simp add: checked_fwrite_def)
qed

lemma nav_command_line:
  assumes plain: "\<not> option_element md" "md \<noteq> ''--''"
  shows "\<exists>opts. getOptions [''-n'', nav, md] = Inr (opts, md, rootFilename md)
            \<and> navEmbedCode opts = Some nav"
proof -
  have n: "option_element ''-n''" "''-n'' \<noteq> ''--''" by (simp_all add: option_element_def)
  have used: "snd (scan_cluster ''v'' cs nxt) = False" for cs nxt by (rule scan_cluster_v)
  consider "nav = ''--''" | "nav \<noteq> ''--''" "option_element nav"
    | "nav \<noteq> ''--''" "\<not> option_element nav" by blast
  then have ord: "fst (snd (getopt_all ''v'' [''-n'', nav, md]))
      @ snd (snd (getopt_all ''v'' [''-n'', nav, md])) = [''-n'', nav, md]"
  proof cases
    case 1
    then show ?thesis using n by (simp add: split_def used)
  next
    case 2
    then show ?thesis using n plain by (simp add: split_def used)
  next
    case 3
    then show ?thesis using n plain by (simp add: split_def used)
  qed
  have parse: "getopt_all ''hvf:c:n:'' [''-n'', nav, md]
     = ([Got (CHR ''n'') nav (CHR ''n'')], [''-n'', nav], [md])"
    using plain n by (simp add: valid_opt_def takes_arg_def)
  show ?thesis
    unfolding getOptions_in_order[OF ord parse]
    by (simp add: seq_Inr seq_def verboseOnly_fields)
qed

theorem nav_option_closes_body:
  assumes plain: "\<not> option_element md" "md \<noteq> ''--''"
    and run: "webpage_main e [''-n'', nav, md] = Inr (fname, page)"
  shows "\<exists>head src rendered.
      files e md = Some src \<and> cmark e src = Some rendered
      \<and> page = head @ g_BodyOpenTag @ rendered
               @ g_CommentOpenTag @ '' NAVIGATION EMBEDDING GOES HERE \<newline>'' @ nav
               @ g_CommentCloseTag
               @ g_BodyCloseTag @ g_PageCloseTag"
proof -
  from nav_command_line[OF plain, of nav] obtain opts where
    g: "getOptions [''-n'', nav, md] = Inr (opts, md, rootFilename md)"
    and n: "navEmbedCode opts = Some nav" by blast
  from run g have "makeWebpage e opts md (rootFilename md) = Inr (fname, page)"
    by (simp add: webpage_main_def seq_Inr)
  from body_ends_with_nav[OF n this] show ?thesis .
qed

theorem nav_option_closes_body_witness:
  "\<exists>head. webpage_main site_env [''-n'', ''Navigation Embedding'', ''./index.md'']
     = Inr (''./index.html'', head @ ''<body>\<newline><h1>Hi</h1>\<newline><!-- NAVIGATION EMBEDDING GOES HERE \<newline>Navigation Embedding-->\<newline></body>\<newline></html>\<newline>'')"
proof -
  have plain: "\<not> option_element ''./index.md''" "''./index.md'' \<noteq> ''--''"
    by (simp_all add: option_element_def)
  define page where "page = ''<!DOCTYPE html>\<newline><html>\<newline><head>\<newline><title>./index</title>\<newline><!--Author is mark-->\<newline><!--Datetime is Tue Nov  3 07:07:00 2026-->\<newline><meta charset=\"utf-8\">\<newline></head>\<newline><body>\<newline><h1>Hi</h1>\<newline><!-- NAVIGATION EMBEDDING GOES HERE \<newline>Navigation Embedding-->\<newline></body>\<newline></html>\<newline>''"
  have run: "webpage_main site_env [''-n'', ''Navigation Embedding'', ''./index.md'']
      = Inr (''./index.html'', page)"
    unfolding page_def by code_simp
  from nav_option_closes_body[OF plain run] obtain head src rendered where
    r: "cmark site_env src = Some rendered"
    and p: "page = head @ g_BodyOpenTag @ rendered
               @ g_CommentOpenTag @ '' NAVIGATION EMBEDDING GOES HERE \<newline>''
               @ ''Navigation Embedding'' @ g_CommentCloseTag
               @ g_BodyCloseTag @ g_PageCloseTag" by blast
  from r have "rendered = ''<h1>Hi</h1>\<newline>''" by (simp add: site_env_def)
  with p have "page = head @ ''<body>\<newline><h1>Hi</h1>\<newline><!-- NAVIGATION EMBEDDING GOES HERE \<newline>Navigation Embedding-->\<newline></body>\<newline></html>\<newline>''"
    by (simp add: g_BodyOpenTag_def g_CommentOpenTag_def g_CommentCloseTag_def
        g_BodyCloseTag_def g_PageCloseTag_def)
  with run show ?thesis by auto
qed

subsection \<open>Option parsing\<close>

lemma webpage_argv_F:
  assumes "flags cfg \<noteq> []"
  shows "\<exists>rest. webpage_argv cfg root md
      = (if verbose_sh cfg = ''true'' then [''-v''] else []) @ ''-F'' # rest"
  using assms by (simp add: webpage_argv_def verboseOption_def flagsOption_def)

text \<open>
  The orchestrator passes its flags as \<^verbatim>\<open>-F\<close>, a letter that is not in the option
  string of the assembler: whenever the flags are set, every run of the assembler it
  starts ends with "Unknown option 70 specified" (exit -3).
\<close>

theorem orchestrator_flags_rejected:
  assumes "flags cfg \<noteq> []"
  shows "getOptions (webpage_argv cfg root md)
     = Inl (Exit EXIT_UNKNOWN_OPTION ''Unknown option 70 specified\<newline>'')"
proof -
  from webpage_argv_F[OF assms] obtain rest where
    argv: "webpage_argv cfg root md
      = (if verbose_sh cfg = ''true'' then [''-v''] else []) @ ''-F'' # rest" by blast
  have oe: "option_element ''-F''" "''-F'' \<noteq> ''--''" "option_element ''-v''" "''-v'' \<noteq> ''--''"
    by (simp_all add: option_element_def)
  have tv: "\<not> takes_arg ''v'' (CHR ''v'')" "\<not> takes_arg ''hvf:c:n:'' (CHR ''v'')"
    by (simp_all add: takes_arg_def)
  have F1: "getopt_all ''v'' (''-F'' # r)
      = (Got (CHR ''?'') [] (CHR ''F'') # fst (getopt_all ''v'' r),
         ''-F'' # fst (snd (getopt_all ''v'' r)), snd (snd (getopt_all ''v'' r)))" for r
    using oe by (simp add: split_def valid_opt_def Let_def)
  have F2: "getopt_all ''hvf:c:n:'' (''-F'' # r)
      = (Got (CHR ''?'') [] (CHR ''F'') # fst (getopt_all ''hvf:c:n:'' r),
         ''-F'' # fst (snd (getopt_all ''hvf:c:n:'' r)), snd (snd (getopt_all ''hvf:c:n:'' r)))" for r
    using oe by (simp add: split_def valid_opt_def Let_def)
  have V1: "getopt_all ''v'' (''-v'' # r)
      = (Got (CHR ''v'') [] (CHR ''v'') # fst (getopt_all ''v'' r),
         ''-v'' # fst (snd (getopt_all ''v'' r)), snd (snd (getopt_all ''v'' r)))" for r
    using oe tv by (simp add: split_def valid_opt_def Let_def)
  have V2: "getopt_all ''hvf:c:n:'' (''-v'' # r)
      = (Got (CHR ''v'') [] (CHR ''v'') # fst (getopt_all ''hvf:c:n:'' r),
         ''-v'' # fst (snd (getopt_all ''hvf:c:n:'' r)), snd (snd (getopt_all ''hvf:c:n:'' r)))" for r
    using oe tv by (simp add: split_def valid_opt_def Let_def)
  have msg: "printf_d (CHR ''F'') = ''70''" by code_simp
  obtain g r1 r2 where R1: "getopt_all ''v'' rest = (g, r1, r2)" by (metis prod_cases3)
  obtain g2 s1 s2 where R2: "getopt_all ''hvf:c:n:'' (r1 @ r2) = (g2, s1, s2)"
    by (metis prod_cases3)
  show ?thesis
  proof (cases "verbose_sh cfg = ''true''")
    case True
    have p1: "getopt_all ''v'' (''-v'' # ''-F'' # rest)
        = (Got (CHR ''v'') [] (CHR ''v'') # Got (CHR ''?'') [] (CHR ''F'') # g,
           ''-v'' # ''-F'' # r1, r2)"
      unfolding V1 F1 R1 by simp
    have p2: "getopt_all ''hvf:c:n:'' (''-v'' # ''-F'' # r1 @ r2)
        = (Got (CHR ''v'') [] (CHR ''v'') # Got (CHR ''?'') [] (CHR ''F'') # g2,
           ''-v'' # ''-F'' # s1, s2)"
      unfolding V2 F2 R2 by simp
    from True have "webpage_argv cfg root md = ''-v'' # ''-F'' # rest" using argv by simp
    then show ?thesis
      unfolding getOptions_def by (simp add: p1 p2 seq_def msg Let_def del: getopt_all.simps)
  next
    case False
    have p1: "getopt_all ''v'' (''-F'' # rest) = (Got (CHR ''?'') [] (CHR ''F'') # g, ''-F'' # r1, r2)"
      unfolding F1 R1 by simp
    have p2: "getopt_all ''hvf:c:n:'' (''-F'' # r1 @ r2)
        = (Got (CHR ''?'') [] (CHR ''F'') # g2, ''-F'' # s1, s2)"
      unfolding F2 R2 by simp
    from False have "webpage_argv cfg root md = ''-F'' # rest" using argv by simp
    then show ?thesis
      unfolding getOptions_def by (simp add: p1 p2 seq_def msg Let_def del: getopt_all.simps)
  qed
qed

theorem orchestrator_flags_rejected_witness:
  "flags ((default_config ''site'')\<lparr>flags := ''0x05''\<rparr>) \<noteq> []
   \<and> webpage_argv ((default_config ''site'')\<lparr>flags := ''0x05''\<rparr>) ''/srv/site_html'' ''index.md''
       = [''-F'', ''0x05'', ''-c'', ''/srv/site_html'', ''./index.md'']
   \<and> getOptions (webpage_argv ((default_config ''site'')\<lparr>flags := ''0x05''\<rparr>)
         ''/srv/site_html'' ''index.md'')
       = Inl (Exit EXIT_UNKNOWN_OPTION ''Unknown option 70 specified\<newline>'')"
proof -
  have f: "flags ((default_config ''site'')\<lparr>flags := ''0x05''\<rparr>) \<noteq> []" by simp
  have a: "webpage_argv ((default_config ''site'')\<lparr>flags := ''0x05''\<rparr>) ''/srv/site_html'' ''index.md''
       = [''-F'', ''0x05'', ''-c'', ''/srv/site_html'', ''./index.md'']" by code_simp
  from orchestrator_flags_rejected[OF f, of "''/srv/site_html''" "''index.md''"] f a
  show ?thesis by simp
qed

text \<open>
  C9. If \<^verbatim>\<open>strtol\<close> performs no conversion on the value of \<^verbatim>\<open>-f\<close>, the case
  \<^verbatim>\<open>'f'\<close> leaves the options as they are; and the command line that holds this
  \<^verbatim>\<open>-f\<close>, its value and one markdown file name is accepted without an exit or an
  assertion failure, with the DOCTYPE, the title, the datetime and the author all
  included.
\<close>

theorem unparsable_flags_are_zero:
  assumes noconv: "snd (strtol16 optarg) = 0"
    and plain: "\<not> option_element md" "md \<noteq> ''--''"
  shows "handleOption opts (Got (CHR ''f'') optarg x) = Inr opts
     \<and> (\<exists>opts'. getOptions [''-f'', optarg, md] = Inr (opts', md, rootFilename md)
           \<and> includeDTD opts' \<and> includeTitle opts' \<and> includeDatetime opts'
           \<and> includeAuthor opts')"
proof
  show h: "handleOption opts (Got (CHR ''f'') optarg x) = Inr opts" for opts x
    using strtol16_no_conversion[OF noconv] by (simp add: setFlags_0)
  from first_pass_keeps_order[OF plain, of optarg] obtain gs o1 n1 where
    p1: "getopt_all ''v'' [''-f'', optarg, md] = (gs, o1, n1)"
    and perm: "o1 @ n1 = [''-f'', optarg, md]" by blast
  let ?o = "verboseOnly g_Options gs"
  have "getOptions [''-f'', optarg, md] = Inr (?o, md, rootFilename md)"
    using p1 perm second_pass_f[OF plain, of optarg] h[of ?o "CHR ''f''"]
    by (simp add: getOptions_def seq_Inr seq_def Let_def)
  moreover have "includeDTD ?o \<and> includeTitle ?o \<and> includeDatetime ?o \<and> includeAuthor ?o"
    by (simp add: verboseOnly_fields g_Options_def)
  ultimately show "\<exists>opts'. getOptions [''-f'', optarg, md] = Inr (opts', md, rootFilename md)
           \<and> includeDTD opts' \<and> includeTitle opts' \<and> includeDatetime opts'
           \<and> includeAuthor opts'" by blast
qed

theorem unparsable_flags_are_zero_witness:
  "snd (strtol16 ''zz'') = 0
   \<and> getOptions [''-f'', ''zz'', ''x.md''] = Inr (g_Options, ''x.md'', ''x'')"
proof -
  have n: "snd (strtol16 ''zz'') = 0" by code_simp
  have p: "\<not> option_element ''x.md''" "''x.md'' \<noteq> ''--''" by (simp_all add: option_element_def)
  from unparsable_flags_are_zero[OF n p, of g_Options "CHR ''f''"]
  obtain opts' where "getOptions [''-f'', ''zz'', ''x.md''] = Inr (opts', ''x.md'', rootFilename ''x.md'')"
    by blast
  moreover have "getOptions [''-f'', ''zz'', ''x.md''] = Inr (g_Options, ''x.md'', ''x'')"
    by code_simp
  ultimately show ?thesis using n by simp
qed


text \<open>
  C10, as stated: with more than one positional argument the assembler ends in a
  failed assertion and not in one of its exits. It fails on a command line whose
  options end the run first: an unknown option ends it with "Unknown option 122
  specified" (exit -3), and \<^verbatim>\<open>-h\<close> with the help text (exit 0), whatever follows.
  It fails as well where an option follows the positional arguments: the first loop
  moves \<^verbatim>\<open>-n\<close> to the front, the second gives it \<^verbatim>\<open>a.md\<close> for its value, and the
  command line is accepted with \<^verbatim>\<open>b.md\<close> as the markdown file.
\<close>

theorem excess_arguments_counterexample:
  "getopt_all ''hvf:c:n:'' [''-z'', ''a.md'', ''b.md'']
     = ([Got (CHR ''?'') [] (CHR ''z'')], [''-z''], [''a.md'', ''b.md''])
   \<and> getOptions [''-z'', ''a.md'', ''b.md'']
       = Inl (Exit EXIT_UNKNOWN_OPTION ''Unknown option 122 specified\<newline>'')
   \<and> getOptions [''-h'', ''a.md'', ''b.md''] = Inl (Exit EXIT_NORMAL printHelp)
   \<and> Exit EXIT_UNKNOWN_OPTION ''Unknown option 122 specified\<newline>'' \<noteq> AssertFail
   \<and> getOptions [''a.md'', ''b.md'', ''-n'']
       = Inr (g_Options\<lparr>navEmbedCode := Some ''a.md''\<rparr>, ''b.md'', ''b'')"
  by code_simp

text \<open>
  C10, amended. On a command line that has its option arguments first (they may be
  followed by \<^verbatim>\<open>--\<close>), whose options are all accepted (none ends the run), and on
  which \<^verbatim>\<open>getopt\<close> finds more than one positional argument for the option string
  \<^verbatim>\<open>hvf:c:n:\<close>, \<^verbatim>\<open>getOptions\<close> ends in the failed assertion
  \<^verbatim>\<open>(optind + 1) == argc\<close>, which is none of the exits with a code and a message.
\<close>

theorem excess_arguments_assert:
  assumes first: "\<forall>a\<in>set os. option_element a \<and> a \<noteq> ''--''"
    and rest: "(\<forall>p\<in>set ps. \<not> option_element p) \<or> (\<exists>qs. ps = ''--'' # qs)"
    and parse: "getopt_all ''hvf:c:n:'' (os @ ps) = (gs, opts, positional)"
    and ok: "handleOptions g_Options gs = Inr opts'"
    and more: "1 < length positional"
  shows "getOptions (os @ ps) = Inl AssertFail"
proof -
  have "fst (snd (getopt_all ''v'' ps)) @ snd (snd (getopt_all ''v'' ps)) = ps"
    using rest
  proof
    assume "\<forall>p\<in>set ps. \<not> option_element p"
    from getopt_all_nonoptions[OF this] show ?thesis by simp
  next
    assume "\<exists>qs. ps = ''--'' # qs"
    then show ?thesis by auto
  qed
  from first_pass_options_first[OF first this]
  have ord: "fst (snd (getopt_all ''v'' (os @ ps))) @ snd (snd (getopt_all ''v'' (os @ ps)))
      = os @ ps" .
  from handleOptions_accepts[OF ok]
  obtain y where "handleOptions (verboseOnly g_Options (fst (getopt_all ''v'' (os @ ps)))) gs = Inr y"
    by blast
  with more show ?thesis
    unfolding getOptions_in_order[OF ord parse] by (auto simp: seq_Inr)
qed

theorem excess_arguments_assert_witness:
  "getopt_all ''hvf:c:n:'' ([''-v'', ''-n''] @ [''NAV'', ''a.md'', ''b.md''])
     = ([Got (CHR ''v'') [] (CHR ''v''), Got (CHR ''n'') ''NAV'' (CHR ''n'')],
        [''-v'', ''-n'', ''NAV''], [''a.md'', ''b.md''])
   \<and> getOptions [''-v'', ''-n'', ''NAV'', ''a.md'', ''b.md''] = Inl AssertFail"
proof -
  have first: "\<forall>a\<in>set [''-v'', ''-n'']. option_element a \<and> a \<noteq> ''--''"
    by (simp add: option_element_def)
  have rest: "(\<forall>p\<in>set [''NAV'', ''a.md'', ''b.md'']. \<not> option_element p)
      \<or> (\<exists>qs. [''NAV'', ''a.md'', ''b.md''] = ''--'' # qs)"
    by (simp add: option_element_def)
  have parse: "getopt_all ''hvf:c:n:'' ([''-v'', ''-n''] @ [''NAV'', ''a.md'', ''b.md''])
     = ([Got (CHR ''v'') [] (CHR ''v''), Got (CHR ''n'') ''NAV'' (CHR ''n'')],
        [''-v'', ''-n'', ''NAV''], [''a.md'', ''b.md''])"
    by code_simp
  have ok: "handleOptions g_Options [Got (CHR ''v'') [] (CHR ''v''), Got (CHR ''n'') ''NAV'' (CHR ''n'')]
      = Inr (g_Options\<lparr>navEmbedCode := Some ''NAV''\<rparr>)"
    by code_simp
  have more: "1 < length [''a.md'', ''b.md'']" by simp
  from excess_arguments_assert[OF first rest parse ok more] parse show ?thesis by simp
qed

subsection \<open>The cleanup\<close>















end
